theory Spec2Isabelle
  imports Complex_Main
begin

section \<open>Python strings\<close>

text \<open>
  A Python \<open>str\<close> is modelled as a \<open>string\<close> (a list of 8-bit characters) read as ASCII
  text. The white space of \<open>str.split\<close>, \<open>str.strip\<close>, \<open>float\<close> and the regular
  expression class \<open>\s\<close> is the ASCII part of what \<open>str.isspace\<close> accepts; code points
  beyond ASCII are not modelled (they are neither white space, digits nor letters here).
\<close>

definition is_space :: "char \<Rightarrow> bool" where
  "is_space c = (c \<in> set [CHR '' '', CHR 0x09, CHR 0x0A, CHR 0x0B, CHR 0x0C, CHR 0x0D,
                            CHR 0x1C, CHR 0x1D, CHR 0x1E, CHR 0x1F])"

definition is_digit :: "char \<Rightarrow> bool" where
  "is_digit c = (c \<in> set ''0123456789'')"

definition digit_val :: "char \<Rightarrow> nat" where
  "digit_val c = (case map_of (zip ''0123456789'' [0, 1, 2, 3, 4, 5, 6, 7, 8, 9]) c of
                    Some n \<Rightarrow> n | None \<Rightarrow> 0)"

definition digits_val :: "string \<Rightarrow> nat" where
  "digits_val ds = foldl (\<lambda>a c. 10 * a + digit_val c) 0 ds"

definition lower_char :: "char \<Rightarrow> char" where
  "lower_char c = (case map_of (zip ''ABCDEFGHIJKLMNOPQRSTUVWXYZ'' ''abcdefghijklmnopqrstuvwxyz'') c of
                     Some l \<Rightarrow> l | None \<Rightarrow> c)"

definition upper_char :: "char \<Rightarrow> char" where
  "upper_char c = (case map_of (zip ''abcdefghijklmnopqrstuvwxyz'' ''ABCDEFGHIJKLMNOPQRSTUVWXYZ'') c of
                     Some u \<Rightarrow> u | None \<Rightarrow> c)"

definition lower :: "string \<Rightarrow> string" where
  "lower s = map lower_char s"

definition upper :: "string \<Rightarrow> string" where
  "upper s = map upper_char s"

text \<open>\<open>s.strip()\<close>: white space removed at both ends.\<close>

definition strip :: "string \<Rightarrow> string" where
  "strip s = rev (dropWhile is_space (rev (dropWhile is_space s)))"

text \<open>\<open>s.split()\<close>: the maximal runs of characters that are not white space.\<close>

function split_ws :: "string \<Rightarrow> string list" where
  "split_ws s =
     (let s' = dropWhile is_space s
      in if s' = [] then []
         else takeWhile (\<lambda>c. \<not> is_space c) s' # split_ws (dropWhile (\<lambda>c. \<not> is_space c) s'))"
  by pat_completeness auto
termination
proof (relation "measure length")
  show "wf (measure length)" by simp
next
  fix s s' :: string
  assume a: "s' = dropWhile is_space s" "s' \<noteq> []"
  then have h: "\<not> is_space (hd s')" using hd_dropWhile by metis
  from a(2) obtain c cs where cs: "s' = c # cs" by (cases s') auto
  with h have "dropWhile (\<lambda>c. \<not> is_space c) s' = dropWhile (\<lambda>c. \<not> is_space c) cs" by simp
  then have "length (dropWhile (\<lambda>c. \<not> is_space c) s') \<le> length cs"
    by (simp add: length_dropWhile_le)
  also have "length cs < length s'" using cs by simp
  also have "length s' \<le> length s" using a by (simp add: length_dropWhile_le)
  finally show "(dropWhile (\<lambda>c. \<not> is_space c) s', s) \<in> measure length" by simp
qed

declare split_ws.simps [simp del]

text \<open>\<open>' '.join(ws)\<close>.\<close>

fun join_sp :: "string list \<Rightarrow> string" where
  "join_sp [] = []"
| "join_sp [w] = w"
| "join_sp (w # ws) = w @ CHR '' '' # join_sp ws"

text \<open>\<open>k in s\<close> on strings: \<open>k\<close> occurs in \<open>s\<close> as a contiguous substring.\<close>

fun starts_with :: "string \<Rightarrow> string \<Rightarrow> bool" where
  "starts_with [] s = True"
| "starts_with (k # ks) [] = False"
| "starts_with (k # ks) (c # cs) = (k = c \<and> starts_with ks cs)"

fun contains :: "string \<Rightarrow> string \<Rightarrow> bool" where
  "contains k [] = (k = [])"
| "contains k (c # cs) = (starts_with k (c # cs) \<or> contains k cs)"

section \<open>Python values and floats\<close>

text \<open>
  A Python \<open>float\<close> is a finite number, one of the two infinities, or NaN. A finite float
  is modelled as the rational number it denotes and arithmetic on finite floats is exact: the
  rounding of binary floating point to 53 bits is not part of the model. The operations
  below are Python's unary minus, \<open>abs\<close>, the comparisons \<open>x < 0\<close>, \<open>x >= 0\<close>,
  \<open>x == y\<close> and \<open>x <= y\<close> (every comparison with NaN is false), truth value testing
  (only zero is false), \<open>+\<close>, \<open>-\<close> and \<open>sum\<close>.
\<close>

datatype pyfloat = Finite rat | PosInf | NegInf | NaN

fun float_neg :: "pyfloat \<Rightarrow> pyfloat" where
  "float_neg (Finite q) = Finite (- q)"
| "float_neg PosInf = NegInf"
| "float_neg NegInf = PosInf"
| "float_neg NaN = NaN"

fun float_abs :: "pyfloat \<Rightarrow> pyfloat" where
  "float_abs (Finite q) = Finite \<bar>q\<bar>"
| "float_abs PosInf = PosInf"
| "float_abs NegInf = PosInf"
| "float_abs NaN = NaN"

fun float_lt_zero :: "pyfloat \<Rightarrow> bool" where
  "float_lt_zero (Finite q) = (q < 0)"
| "float_lt_zero PosInf = False"
| "float_lt_zero NegInf = True"
| "float_lt_zero NaN = False"


definition float_eq :: "pyfloat \<Rightarrow> pyfloat \<Rightarrow> bool" where
  "float_eq x y = (x \<noteq> NaN \<and> y \<noteq> NaN \<and> x = y)"


fun float_nonzero :: "pyfloat \<Rightarrow> bool" where
  "float_nonzero (Finite q) = (q \<noteq> 0)"
| "float_nonzero PosInf = True"
| "float_nonzero NegInf = True"
| "float_nonzero NaN = True"

fun float_add :: "pyfloat \<Rightarrow> pyfloat \<Rightarrow> pyfloat" where
  "float_add (Finite a) (Finite b) = Finite (a + b)"
| "float_add (Finite a) PosInf = PosInf"
| "float_add (Finite a) NegInf = NegInf"
| "float_add PosInf (Finite b) = PosInf"
| "float_add PosInf PosInf = PosInf"
| "float_add PosInf NegInf = NaN"
| "float_add NegInf (Finite b) = NegInf"
| "float_add NegInf NegInf = NegInf"
| "float_add NegInf PosInf = NaN"
| "float_add NaN y = NaN"
| "float_add x NaN = NaN"

definition float_sub :: "pyfloat \<Rightarrow> pyfloat \<Rightarrow> pyfloat" where
  "float_sub x y = float_add x (float_neg y)"

text \<open>\<open>sum(xs)\<close>: from the left, starting at zero.\<close>

definition float_sum :: "pyfloat list \<Rightarrow> pyfloat" where
  "float_sum xs = foldl float_add (Finite 0) xs"

text \<open>
  The range of a float. A number too large for a float: \<open>float\<close> of such an \<open>int\<close>
  raises \<open>OverflowError\<close>, and a decimal literal of that magnitude denotes an infinity; the
  bound is the midpoint between the largest finite float and \<open>2 ^ 1024\<close>. A decimal literal
  of at most half the smallest positive float denotes zero.
\<close>

definition float_overflow :: int where
  "float_overflow = 2 ^ 1024 - 2 ^ 970"

definition of_magnitude :: "rat \<Rightarrow> pyfloat" where
  "of_magnitude q =
     (if of_int float_overflow \<le> q then PosInf
      else if q \<le> 1 / 2 ^ 1075 then Finite 0
      else Finite q)"

text \<open>The values a transaction dictionary holds.\<close>

datatype pyval = PNone | PBool bool | PInt int | PFloat pyfloat | PStr string

type_synonym pydict = "(string \<times> pyval) list"

text \<open>\<open>d.get(k)\<close>: the value stored under \<open>k\<close>, \<open>None\<close> when the key is absent.\<close>

definition dict_get :: "pydict \<Rightarrow> string \<Rightarrow> pyval" where
  "dict_get d k = (case map_of d k of Some v \<Rightarrow> v | None \<Rightarrow> PNone)"

text \<open>Truth value testing, as \<open>if x\<close> and \<open>not x\<close> do it.\<close>

fun truthy :: "pyval \<Rightarrow> bool" where
  "truthy PNone = False"
| "truthy (PBool b) = b"
| "truthy (PInt i) = (i \<noteq> 0)"
| "truthy (PFloat f) = float_nonzero f"
| "truthy (PStr s) = (s \<noteq> [])"

datatype exn = ValueError string | AttributeError string | TypeError string
  | OverflowError string

text \<open>
  \<open>digitpart\<close> of Python's float grammar: a digit, then digits each optionally preceded by
  one underscore. Returns the digits read and the rest of the input.
\<close>

fun digitpart :: "string \<Rightarrow> string \<times> string" where
  "digitpart [] = ([], [])"
| "digitpart [c] = (if is_digit c then ([c], []) else ([], [c]))"
| "digitpart (c # u # cs) =
     (if \<not> is_digit c then ([], c # u # cs)
      else if u = CHR ''_'' \<and> cs \<noteq> [] \<and> is_digit (hd cs)
           then (case digitpart cs of (ds, r) \<Rightarrow> (c # ds, r))
           else (case digitpart (u # cs) of (ds, r) \<Rightarrow> (c # ds, r)))"

text \<open>
  The value of a decimal literal without sign:
  \<open>[digitpart] "." digitpart | digitpart ["."]\<close>, then an optional exponent.
  \<open>None\<close> when the string is no such literal.
\<close>

definition float_unsigned :: "string \<Rightarrow> rat option" where
  "float_unsigned s =
     (case digitpart s of (ip, r1) \<Rightarrow>
      (case (case r1 of c # r \<Rightarrow> if c = CHR ''.'' then digitpart r else ([], r1) | [] \<Rightarrow> ([], [])) of
         (fp, r2) \<Rightarrow>
           if ip = [] \<and> fp = [] then None
           else
             let m = of_nat (digits_val ip) + of_nat (digits_val fp) / 10 ^ length fp
             in (case r2 of
                   [] \<Rightarrow> Some m
                 | e # r3 \<Rightarrow>
                     if e = CHR ''e'' \<or> e = CHR ''E'' then
                       (case (case r3 of
                                c # r \<Rightarrow> if c = CHR ''-'' then (True, r)
                                         else if c = CHR ''+'' then (False, r) else (False, r3)
                              | [] \<Rightarrow> (False, [])) of
                          (neg, r4) \<Rightarrow>
                            (case digitpart r4 of (ed, r5) \<Rightarrow>
                               if ed = [] \<or> r5 \<noteq> [] then None
                               else Some (if neg then m / 10 ^ digits_val ed
                                          else m * 10 ^ digits_val ed)))
                     else None)))"

text \<open>
  \<open>float(s)\<close> on a string: white space around it is ignored, then comes an optional sign
  and \<open>inf\<close>, \<open>infinity\<close> or \<open>nan\<close> in any case, or a decimal literal. \<open>None\<close> is Python's
  \<open>ValueError\<close>.
\<close>

definition float_absvalue :: "string \<Rightarrow> pyfloat option" where
  "float_absvalue s =
     (if lower s = ''inf'' \<or> lower s = ''infinity'' then Some PosInf
      else if lower s = ''nan'' then Some NaN
      else map_option of_magnitude (float_unsigned s))"

definition py_float :: "string \<Rightarrow> pyfloat option" where
  "py_float s =
     (case strip s of
        [] \<Rightarrow> None
      | c # r \<Rightarrow> if c = CHR ''-'' then map_option float_neg (float_absvalue r)
                 else if c = CHR ''+'' then float_absvalue r
                 else float_absvalue (c # r))"

text \<open>
  \<open>round(x, 2)\<close>: a finite value goes to the nearest multiple of 1/100, a tie to the even
  one; an infinity and NaN are returned as they are.
\<close>

definition round_half_even :: "rat \<Rightarrow> int" where
  "round_half_even y =
     (let f = \<lfloor>y\<rfloor>; d = y - of_int f
      in if d < 1 / 2 then f else if 1 / 2 < d then f + 1
         else if even f then f else f + 1)"

definition py_round2 :: "rat \<Rightarrow> rat" where
  "py_round2 x = of_int (round_half_even (x * 100)) / 100"

fun float_round2 :: "pyfloat \<Rightarrow> pyfloat" where
  "float_round2 (Finite q) = Finite (py_round2 q)"
| "float_round2 PosInf = PosInf"
| "float_round2 NegInf = NegInf"
| "float_round2 NaN = NaN"

section \<open>Data Processor\<close>

text \<open>\<open>float(x)\<close> on a dictionary value; \<open>bool\<close> is a subclass of \<open>int\<close>.\<close>

fun to_float :: "pyval \<Rightarrow> exn + pyfloat" where
  "to_float PNone = Inl (TypeError ''float() argument must be a string or a real number'')"
| "to_float (PBool b) = Inr (Finite (if b then 1 else 0))"
| "to_float (PInt i) =
     (if float_overflow \<le> \<bar>i\<bar> then Inl (OverflowError ''int too large to convert to float'')
      else Inr (Finite (of_int i)))"
| "to_float (PFloat f) = Inr f"
| "to_float (PStr s) =
     (case py_float s of None \<Rightarrow> Inl (ValueError ''could not convert string to float'')
                       | Some f \<Rightarrow> Inr f)"

record processed_txn =
  p_date :: pyval
  p_description :: string
  p_amount :: pyfloat
  p_type :: string
  p_balance :: "pyfloat option"
  p_category :: string
  p_raw_amount :: pyfloat
  p_row_num :: nat

record validation_error =
  e_index :: nat
  e_error :: exn
  e_transaction :: pydict

record summary =
  total_transactions :: nat
  total_credits :: pyfloat
  total_debits :: pyfloat
  net_amount :: pyfloat
  opening_balance :: "pyfloat option"
  closing_balance :: "pyfloat option"

text \<open>The instance attributes of \<open>DataProcessor\<close>.\<close>

record data_processor =
  processed_transactions :: "processed_txn list"
  validation_errors :: "validation_error list"

record process_result =
  res_status :: string
  res_transactions :: "processed_txn list"
  res_total_processed :: nat
  res_total_errors :: nat
  res_validation_errors :: "validation_error list"
  res_summary :: summary

text \<open>
  \<open>clean_description\<close>: the handler of the source is unreachable on a \<open>str\<close>, which is
  what the only caller passes.
\<close>

definition clean_description :: "string \<Rightarrow> string" where
  "clean_description description =
     (let d = strip (join_sp (split_ws description))
      in if length d > 100 then take 97 d @ ''...'' else d)"

definition categories :: "(string \<times> string list) list" where
  "categories =
     [(''SALARY'', [''salary'', ''wage'', ''stipend'', ''payroll'']),
      (''TRANSFER'', [''transfer'', ''trf'', ''neft'', ''rtgs'', ''imps'']),
      (''WITHDRAWAL'', [''withdrawal'', ''atm'', ''cash'']),
      (''DEPOSIT'', [''deposit'', ''cheque'', ''check'']),
      (''UTILITY'', [''electricity'', ''water'', ''gas'', ''phone'', ''internet'']),
      (''FOOD'', [''restaurant'', ''food'', ''cafe'', ''grocery'', ''supermarket'']),
      (''ENTERTAINMENT'', [''movie'', ''cinema'', ''entertainment'', ''games'']),
      (''HEALTHCARE'', [''hospital'', ''clinic'', ''pharmacy'', ''doctor'', ''medical'']),
      (''SHOPPING'', [''shopping'', ''mall'', ''store'', ''retail'']),
      (''TRANSPORT'', [''uber'', ''taxi'', ''petrol'', ''fuel'', ''transport'']),
      (''SUBSCRIPTION'', [''subscription'', ''netflix'', ''spotify'', ''prime''])]"

fun first_category :: "(string \<times> string list) list \<Rightarrow> string \<Rightarrow> string" where
  "first_category [] desc_lower = ''OTHER''"
| "first_category ((category, keywords) # rest) desc_lower =
     (if list_ex (\<lambda>keyword. contains keyword desc_lower) keywords then category
      else first_category rest desc_lower)"

definition categorize_transaction :: "string \<Rightarrow> string" where
  "categorize_transaction description = first_category categories (lower description)"

text \<open>
  \<open>validate_and_clean_transaction\<close>: \<open>Inl\<close> is the exception the source raises (its own
  handler re-raises it unchanged). A description that is true but no \<open>str\<close> has no
  \<open>strip\<close> method. The \<open>type\<close> the source reads from the input is overwritten before use.
\<close>

definition validate_and_clean_transaction :: "pydict \<Rightarrow> nat \<Rightarrow> exn + processed_txn" where
  "validate_and_clean_transaction transaction idx =
     (let date = dict_get transaction ''date'';
          description = dict_get transaction ''description'';
          amount = dict_get transaction ''amount'';
          balance = dict_get transaction ''balance''
      in if \<not> truthy date then Inl (ValueError ''Missing date'')
         else if \<not> truthy description then Inl (ValueError ''Missing description'')
         else (case description of
                 PStr d \<Rightarrow>
                   if strip d = [] then Inl (ValueError ''Missing description'')
                   else if amount = PNone then Inl (ValueError ''Missing amount'')
                   else (case to_float amount of
                           Inl e \<Rightarrow> Inl e
                         | Inr a \<Rightarrow>
                             (case (if truthy balance then map_sum id Some (to_float balance)
                                    else Inr None) of
                                Inl e \<Rightarrow> Inl e
                              | Inr b \<Rightarrow>
                                  Inr \<lparr>p_date = date,
                                       p_description = clean_description d,
                                       p_amount = float_abs a,
                                       p_type = (if float_lt_zero a then ''DEBIT'' else ''CREDIT''),
                                       p_balance = b,
                                       p_category = categorize_transaction (clean_description d),
                                       p_raw_amount = a,
                                       p_row_num = idx + 2\<rparr>))
               | _ \<Rightarrow> Inl (AttributeError ''object has no attribute strip'')))"

text \<open>
  \<open>generate_summary\<close>: a balance that is \<open>None\<close> or zero is not true, so it is left out.
  Nothing in the body can raise on processed transactions, so the handler that returns an
  empty dictionary is not modelled.
\<close>

definition balance_if_true :: "processed_txn \<Rightarrow> pyfloat option" where
  "balance_if_true t =
     (case p_balance t of Some b \<Rightarrow> if float_nonzero b then Some b else None | None \<Rightarrow> None)"

definition generate_summary :: "data_processor \<Rightarrow> summary" where
  "generate_summary self =
     (let ts = processed_transactions self
      in if ts = [] then
           \<lparr>total_transactions = 0, total_credits = Finite 0, total_debits = Finite 0,
            net_amount = Finite 0, opening_balance = None, closing_balance = None\<rparr>
         else
           let credits = float_sum (map p_amount (filter (\<lambda>t. p_type t = ''CREDIT'') ts));
               debits = float_sum (map p_amount (filter (\<lambda>t. p_type t = ''DEBIT'') ts))
           in \<lparr>total_transactions = length ts,
               total_credits = float_round2 credits,
               total_debits = float_round2 debits,
               net_amount = float_round2 (float_sub credits debits),
               opening_balance = balance_if_true (hd ts),
               closing_balance = balance_if_true (last ts)\<rparr>)"

text \<open>
  The loop of \<open>process_transactions\<close> over \<open>enumerate(transactions)\<close>. The dictionary
  \<open>validate_and_clean_transaction\<close> returns is never empty, so \<open>if processed\<close> holds
  whenever it returns.
\<close>

fun process_loop :: "nat \<Rightarrow> pydict list \<Rightarrow> data_processor \<Rightarrow> data_processor" where
  "process_loop idx [] self = self"
| "process_loop idx (transaction # rest) self =
     process_loop (Suc idx) rest
       (case validate_and_clean_transaction transaction idx of
          Inr processed \<Rightarrow>
            self\<lparr>processed_transactions := processed_transactions self @ [processed]\<rparr>
        | Inl e \<Rightarrow>
            self\<lparr>validation_errors := validation_errors self @
                   [\<lparr>e_index = idx, e_error = e, e_transaction = transaction\<rparr>]\<rparr>)"

definition process_transactions ::
  "data_processor \<Rightarrow> pydict list \<Rightarrow> process_result \<times> data_processor" where
  "process_transactions self transactions =
     (let self' = process_loop 0 transactions
                    (self\<lparr>processed_transactions := [], validation_errors := []\<rparr>)
      in (\<lparr>res_status = ''success'',
           res_transactions = processed_transactions self',
           res_total_processed = length (processed_transactions self'),
           res_total_errors = length (validation_errors self'),
           res_validation_errors = validation_errors self',
           res_summary = generate_summary self'\<rparr>, self'))"

section \<open>PDF Parser: dates\<close>

text \<open>
  \<open>datetime.strptime\<close> and \<open>strftime\<close> are library code; they are modelled on the
  directives the source uses, in the C locale. A format is a list of directives;
  \<open>Lit c\<close> is a character of the format that stands for itself.
\<close>

datatype directive = Dir_d | Dir_m | Dir_Y | Dir_b | Dir_B | Lit char

record ymd =
  year :: nat
  month :: nat
  day :: nat

definition month_abbrs :: "string list" where
  "month_abbrs = [''Jan'', ''Feb'', ''Mar'', ''Apr'', ''May'', ''Jun'',
                  ''Jul'', ''Aug'', ''Sep'', ''Oct'', ''Nov'', ''Dec'']"

definition month_names :: "string list" where
  "month_names = [''January'', ''February'', ''March'', ''April'', ''May'', ''June'', ''July'',
                  ''August'', ''September'', ''October'', ''November'', ''December'']"

definition digit_char :: "nat \<Rightarrow> char" where
  "digit_char n = ''0123456789'' ! (n mod 10)"

definition pad2 :: "nat \<Rightarrow> string" where
  "pad2 n = [digit_char (n div 10), digit_char n]"

definition pad4 :: "nat \<Rightarrow> string" where
  "pad4 n = [digit_char (n div 1000), digit_char (n div 100), digit_char (n div 10), digit_char n]"

text \<open>
  The year as \<open>strftime\<close> writes it for \<open>%Y\<close>: CPython hands the directive to the C
  library, and glibc writes the year in decimal without padding, so a year has four digits
  from 1000 on and fewer before. A \<open>datetime\<close> has a year from 1 to 9999.
\<close>

definition year_digits :: "nat \<Rightarrow> string" where
  "year_digits n =
     (if n < 10 then [digit_char n]
      else if n < 100 then pad2 n
      else if n < 1000 then [digit_char (n div 100), digit_char (n div 10), digit_char n]
      else pad4 n)"

text \<open>\<open>strftime\<close>: two digits for day and month, English month names.\<close>

fun format_directive :: "directive \<Rightarrow> ymd \<Rightarrow> string" where
  "format_directive Dir_d t = pad2 (day t)"
| "format_directive Dir_m t = pad2 (month t)"
| "format_directive Dir_Y t = year_digits (year t)"
| "format_directive Dir_b t = month_abbrs ! (month t - 1)"
| "format_directive Dir_B t = month_names ! (month t - 1)"
| "format_directive (Lit c) t = [c]"

definition strftime :: "directive list \<Rightarrow> ymd \<Rightarrow> string" where
  "strftime fmt t = concat (map (\<lambda>d. format_directive d t) fmt)"

text \<open>
  \<open>strptime\<close> turns the format into a regular expression and takes the first match a
  backtracking matcher finds. \<open>alternatives d s\<close> lists, in the order the matcher tries
  them, the ways directive \<open>d\<close> matches a prefix of \<open>s\<close>, each with the number read and
  the rest of \<open>s\<close>:
  \<^item> \<open>%d\<close> is \<open>3[0-1]|[1-2]\d|0[1-9]|[1-9]| [1-9]\<close>,
  \<^item> \<open>%m\<close> is \<open>1[0-2]|0[1-9]|[1-9]\<close>,
  \<^item> \<open>%Y\<close> is \<open>\d\d\d\d\<close>,
  \<^item> \<open>%b\<close> and \<open>%B\<close> are the month names, letter case ignored; no name is a
    prefix of another, so at most one of them matches and their order plays no role.
  The number read for \<open>%d\<close> is \<open>int\<close> of the text matched, so a leading blank counts
  as nothing.
\<close>

definition one_char :: "(char \<Rightarrow> bool) \<Rightarrow> string \<Rightarrow> (nat \<times> string) list" where
  "one_char p s = (case s of a # r \<Rightarrow> if p a then [(digit_val a, r)] else [] | [] \<Rightarrow> [])"

definition two_chars ::
  "(char \<Rightarrow> bool) \<Rightarrow> (char \<Rightarrow> bool) \<Rightarrow> string \<Rightarrow> (nat \<times> string) list" where
  "two_chars p q s =
     (case s of
        a # b # r \<Rightarrow> if p a \<and> q b then [(10 * digit_val a + digit_val b, r)] else []
      | _ \<Rightarrow> [])"

definition four_digits :: "string \<Rightarrow> (nat \<times> string) list" where
  "four_digits s =
     (case s of
        a # b # c # d # r \<Rightarrow>
          if is_digit a \<and> is_digit b \<and> is_digit c \<and> is_digit d
          then [(digits_val [a, b, c, d], r)] else []
      | _ \<Rightarrow> [])"

definition in_chars :: "string \<Rightarrow> char \<Rightarrow> bool" where
  "in_chars cs c = (c \<in> set cs)"

fun name_alternatives :: "string list \<Rightarrow> nat \<Rightarrow> string \<Rightarrow> (nat \<times> string) list" where
  "name_alternatives [] i s = []"
| "name_alternatives (n # ns) i s =
     (if length n \<le> length s \<and> lower (take (length n) s) = lower n
      then [(i, drop (length n) s)] else [])
     @ name_alternatives ns (Suc i) s"

fun alternatives :: "directive \<Rightarrow> string \<Rightarrow> (nat \<times> string) list" where
  "alternatives Dir_d s =
     two_chars (in_chars ''3'') (in_chars ''01'') s
     @ two_chars (in_chars ''12'') is_digit s
     @ two_chars (in_chars ''0'') (in_chars ''123456789'') s
     @ one_char (in_chars ''123456789'') s
     @ two_chars (in_chars '' '') (in_chars ''123456789'') s"
| "alternatives Dir_m s =
     two_chars (in_chars ''1'') (in_chars ''012'') s
     @ two_chars (in_chars ''0'') (in_chars ''123456789'') s
     @ one_char (in_chars ''123456789'') s"
| "alternatives Dir_Y s = four_digits s"
| "alternatives Dir_b s = name_alternatives month_abbrs 1 s"
| "alternatives Dir_B s = name_alternatives month_names 1 s"
| "alternatives (Lit c) s = []"

fun set_field :: "directive \<Rightarrow> nat \<Rightarrow> ymd \<Rightarrow> ymd" where
  "set_field Dir_d v t = t\<lparr>day := v\<rparr>"
| "set_field Dir_Y v t = t\<lparr>year := v\<rparr>"
| "set_field (Lit c) v t = t"
| "set_field d v t = t\<lparr>month := v\<rparr>"

text \<open>All matches of a format against a prefix of the input, in the matcher's order.\<close>

fun strp_match :: "directive list \<Rightarrow> string \<Rightarrow> ymd \<Rightarrow> (ymd \<times> string) list" where
  "strp_match [] s t = [(t, s)]"
| "strp_match (Lit c # ds) s t =
     (case s of x # r \<Rightarrow> if lower_char x = lower_char c then strp_match ds r t else [] | [] \<Rightarrow> [])"
| "strp_match (d # ds) s t =
     concat (map (\<lambda>(v, r). strp_match ds r (set_field d v t)) (alternatives d s))"

definition is_leap :: "nat \<Rightarrow> bool" where
  "is_leap y = (y mod 4 = 0 \<and> (y mod 100 \<noteq> 0 \<or> y mod 400 = 0))"

definition days_in_month :: "nat \<Rightarrow> nat \<Rightarrow> nat" where
  "days_in_month y m =
     (if m = 2 then (if is_leap y then 29 else 28)
      else if m \<in> set [4, 6, 9, 11] then 30 else 31)"

definition valid_date :: "ymd \<Rightarrow> bool" where
  "valid_date t = (1 \<le> year t \<and> year t \<le> 9999 \<and> 1 \<le> month t \<and> month t \<le> 12
                   \<and> 1 \<le> day t \<and> day t \<le> days_in_month (year t) (month t))"

text \<open>
  \<open>strptime\<close>: \<open>None\<close> is \<open>ValueError\<close>, raised when the expression does not match, when
  the first match leaves input over, or when the fields read are no calendar date.
\<close>

definition strptime :: "string \<Rightarrow> directive list \<Rightarrow> ymd option" where
  "strptime s fmt =
     (case strp_match fmt s \<lparr>year = 1900, month = 1, day = 1\<rparr> of
        [] \<Rightarrow> None
      | (t, rest) # _ \<Rightarrow> if rest = [] \<and> valid_date t then Some t else None)"

definition fmt_of :: "directive \<Rightarrow> char \<Rightarrow> directive \<Rightarrow> directive \<Rightarrow> directive list" where
  "fmt_of a sep b c = [a, Lit sep, b, Lit sep, c]"

definition date_formats :: "directive list list" where
  "date_formats =
     [fmt_of Dir_d CHR ''-'' Dir_m Dir_Y, fmt_of Dir_d CHR ''/'' Dir_m Dir_Y,
      fmt_of Dir_m CHR ''-'' Dir_d Dir_Y, fmt_of Dir_m CHR ''/'' Dir_d Dir_Y,
      fmt_of Dir_Y CHR ''-'' Dir_m Dir_d, fmt_of Dir_Y CHR ''/'' Dir_m Dir_d,
      fmt_of Dir_d CHR ''-'' Dir_b Dir_Y, fmt_of Dir_d CHR ''/'' Dir_b Dir_Y,
      fmt_of Dir_b CHR ''-'' Dir_d Dir_Y, fmt_of Dir_b CHR ''/'' Dir_d Dir_Y,
      fmt_of Dir_d CHR ''-'' Dir_B Dir_Y, fmt_of Dir_d CHR ''/'' Dir_B Dir_Y]"

definition iso_format :: "directive list" where
  "iso_format = fmt_of Dir_Y CHR ''-'' Dir_m Dir_d"

fun try_formats :: "directive list list \<Rightarrow> string \<Rightarrow> string option" where
  "try_formats [] s = None"
| "try_formats (fmt # fmts) s =
     (case strptime s fmt of
        Some t \<Rightarrow> Some (strftime iso_format t)
      | None \<Rightarrow> try_formats fmts s)"

definition parse_date :: "string \<Rightarrow> string option" where
  "parse_date date_str = try_formats date_formats (strip date_str)"

section \<open>PDF Parser: amounts\<close>

text \<open>
  \<open>parse_amount\<close>: the argument is \<open>None\<close> or a string. \<open>None\<close> is returned for an
  absent or empty argument and when \<open>float\<close> raises \<open>ValueError\<close>.
\<close>

definition parse_amount :: "string option \<Rightarrow> pyfloat option" where
  "parse_amount amount_str =
     (case amount_str of
        None \<Rightarrow> None
      | Some a \<Rightarrow>
          if a = [] then None
          else
            let s = strip (filter (\<lambda>c. c \<noteq> CHR '','') a)
            in if CHR ''-'' \<in> set s
               then map_option (\<lambda>f. float_round2 (float_neg f))
                      (py_float (filter (\<lambda>c. c \<noteq> CHR ''-'') s))
               else map_option float_round2 (py_float s))"

section \<open>PDF Parser: the pattern of the text variant\<close>

text \<open>
  The regular expression of \<open>extract_from_text\<close> is a sequence of character classes, each
  with a repetition range that is greedy or lazy, and of group boundaries. \<open>rx_run\<close> is
  the backtracking matcher on such a sequence: a greedy repetition tries the longest run
  first, a lazy one the shortest, and the first way that lets the rest of the expression
  match is taken. It returns the length of the input left at each group boundary, and the
  input left after the match.
\<close>

datatype atom = Rep "char \<Rightarrow> bool" nat "nat option" bool | Mark

definition counts :: "nat \<Rightarrow> nat \<Rightarrow> bool \<Rightarrow> nat list" where
  "counts lo hi greedy = (if greedy then rev [lo..<Suc hi] else [lo..<Suc hi])"

fun first_some :: "('a \<Rightarrow> 'b option) \<Rightarrow> 'a list \<Rightarrow> 'b option" where
  "first_some f [] = None"
| "first_some f (k # ks) = (case f k of Some r \<Rightarrow> Some r | None \<Rightarrow> first_some f ks)"

primrec rx_run :: "atom list \<Rightarrow> string \<Rightarrow> (nat list \<times> string) option" where
  "rx_run [] = (\<lambda>s. Some ([], s))"
| "rx_run (a # as) =
     (\<lambda>s. case a of
        Mark \<Rightarrow> map_option (\<lambda>(ms, r). (length s # ms, r)) (rx_run as s)
      | Rep p lo hi greedy \<Rightarrow>
          (let n = length (takeWhile p s);
               m = (case hi of None \<Rightarrow> n | Some h \<Rightarrow> min n h)
           in first_some (\<lambda>k. rx_run as (drop k s)) (counts lo m greedy)))"

text \<open>
  \<open>(\d{1,2}[-/]\d{1,2}[-/]\d{2,4})\s+(.+?)\s+([\d,]+\.?\d*)\s+([\d,]+\.?\d*)\<close>;
  the dot matches every character but the newline.
\<close>

definition number_atoms :: "atom list" where
  "number_atoms =
     [Mark, Rep (\<lambda>c. is_digit c \<or> c = CHR '','') 1 None True,
      Rep (in_chars ''.'') 0 (Some 1) True, Rep is_digit 0 None True, Mark]"

definition pattern :: "atom list" where
  "pattern =
     [Mark, Rep is_digit 1 (Some 2) True, Rep (in_chars ''-/'') 1 (Some 1) True,
      Rep is_digit 1 (Some 2) True, Rep (in_chars ''-/'') 1 (Some 1) True,
      Rep is_digit 2 (Some 4) True, Mark,
      Rep is_space 1 None True,
      Mark, Rep (\<lambda>c. c \<noteq> CHR 0x0A) 1 None False, Mark,
      Rep is_space 1 None True]
     @ number_atoms @ [Rep is_space 1 None True] @ number_atoms"

text \<open>The text of the group between the boundaries \<open>i\<close> and \<open>i + 1\<close> of a match on \<open>s\<close>.\<close>

definition group_text :: "string \<Rightarrow> nat list \<Rightarrow> nat \<Rightarrow> string" where
  "group_text s ms i = take (ms ! i - ms ! Suc i) (drop (length s - ms ! i) s)"

text \<open>
  \<open>re.finditer\<close>: the matches from left to right, none overlapping another. A search
  resumes where the match before it ended; a position without a match is skipped.
\<close>

function finditer :: "string \<Rightarrow> (string \<times> string \<times> string \<times> string) list" where
  "finditer s =
     (if s = [] then []
      else (case rx_run pattern s of
              Some (ms, rest) \<Rightarrow>
                if length rest < length s
                then (group_text s ms 0, group_text s ms 2, group_text s ms 4, group_text s ms 6)
                     # finditer rest
                else finditer (tl s)
            | None \<Rightarrow> finditer (tl s)))"
  by pat_completeness auto
termination
  by (relation "measure length") auto

declare finditer.simps [simp del]

section \<open>PDF Parser: rows, pages, documents\<close>

record raw_txn =
  r_date :: "string option"
  r_description :: string
  r_amount :: "pyfloat option"
  r_balance :: "pyfloat option"
  r_type :: string

text \<open>The instance attributes of \<open>PDFParser\<close>.\<close>

record pdf_parser =
  transactions :: "raw_txn list"
  bank_type :: "string option"
  statement_date_range :: "string option"

text \<open>
  A table cell is \<open>None\<close> or a string. \<open>cell_str\<close> is
  \<open>str(c).strip() if c else None\<close>. In \<open>parse_row\<close>, the test \<open>all([...])\<close> asks
  for three strings that are not empty, and \<open>not date or not amount\<close> rejects a date or
  an amount that is \<open>None\<close>, and an amount that is zero.
\<close>

type_synonym cell = "string option"

definition cell_str :: "cell \<Rightarrow> string option" where
  "cell_str c = (case c of None \<Rightarrow> None | Some s \<Rightarrow> if s = [] then None else Some (strip s))"

definition nonempty :: "string option \<Rightarrow> bool" where
  "nonempty x = (case x of None \<Rightarrow> False | Some s \<Rightarrow> s \<noteq> [])"

definition nonzero :: "pyfloat option \<Rightarrow> bool" where
  "nonzero x = (case x of None \<Rightarrow> False | Some a \<Rightarrow> float_nonzero a)"

definition parse_row :: "cell list \<Rightarrow> raw_txn option" where
  "parse_row row =
     (if length row < 3 then None
      else
        (case cell_str (row ! 0) of None \<Rightarrow> None | Some date_str \<Rightarrow>
        (case cell_str (row ! 1) of None \<Rightarrow> None | Some description \<Rightarrow>
        (case cell_str (row ! 2) of None \<Rightarrow> None | Some amount_str \<Rightarrow>
           if date_str = [] \<or> description = [] \<or> amount_str = [] then None
           else
             let balance_str = (if length row > 3 then cell_str (row ! 3) else None);
                 balance = (if nonempty balance_str then parse_amount balance_str else None)
             in (case parse_date date_str of None \<Rightarrow> None | Some date \<Rightarrow>
                (case parse_amount (Some amount_str) of None \<Rightarrow> None | Some amount \<Rightarrow>
                   if date = [] \<or> \<not> float_nonzero amount then None
                   else Some \<lparr>r_date = Some date, r_description = description,
                              r_amount = Some amount, r_balance = balance,
                              r_type = (if float_lt_zero amount then ''DEBIT''
                                        else ''CREDIT'')\<rparr>))))))"

type_synonym table = "cell list list"

text \<open>\<open>extract_from_table\<close>: the rows after the first, those of at least three cells.\<close>

fun table_rows :: "cell list list \<Rightarrow> raw_txn list" where
  "table_rows [] = []"
| "table_rows (row # rows) =
     (if row \<noteq> [] \<and> length row \<ge> 3
      then (case parse_row row of Some transaction \<Rightarrow> [transaction] | None \<Rightarrow> [])
      else [])
     @ table_rows rows"

definition extract_from_table :: "pdf_parser \<Rightarrow> table \<Rightarrow> pdf_parser" where
  "extract_from_table self table =
     self\<lparr>transactions := transactions self @ table_rows (drop 1 table)\<rparr>"

definition text_candidate :: "string \<times> string \<times> string \<times> string \<Rightarrow> raw_txn" where
  "text_candidate m =
     (case m of (date_str, description, amount, balance) \<Rightarrow>
        \<lparr>r_date = parse_date date_str,
         r_description = strip description,
         r_amount = parse_amount (Some amount),
         r_balance = parse_amount (Some balance),
         r_type = (if contains ''DR'' (upper description) then ''DEBIT'' else ''CREDIT'')\<rparr>)"

text \<open>
  \<open>extract_from_text\<close>: the text of a page may be \<open>None\<close>; \<open>re.finditer\<close> then raises
  \<open>TypeError\<close>, which the handler of the function logs.
\<close>

definition extract_from_text :: "pdf_parser \<Rightarrow> string option \<Rightarrow> pdf_parser" where
  "extract_from_text self text =
     (case text of
        None \<Rightarrow> self
      | Some t \<Rightarrow>
          self\<lparr>transactions := transactions self @
                 filter (\<lambda>transaction. nonempty (r_date transaction) \<and> nonzero (r_amount transaction))
                   (map text_candidate (finditer t))\<rparr>)"

text \<open>
  A page of the document, as \<open>pdfplumber\<close> presents it: the results of \<open>extract_text\<close>
  and \<open>extract_tables\<close>, or \<open>Unreadable\<close> when one of the two calls raises.
\<close>

datatype page = Page "string option" "table list" | Unreadable

definition extract_from_page :: "pdf_parser \<Rightarrow> page \<Rightarrow> pdf_parser" where
  "extract_from_page self page =
     (case page of
        Unreadable \<Rightarrow> self
      | Page text tables \<Rightarrow>
          let self1 = foldl extract_from_table self tables
          in if tables = [] \<or> length (transactions self1) = 0
             then extract_from_text self1 text else self1)"

text \<open>\<open>detect_bank_type\<close>: every failure to read the first page's text gives \<open>GENERIC\<close>.\<close>

definition detect_bank_type :: "pdf_parser \<Rightarrow> page list \<Rightarrow> pdf_parser" where
  "detect_bank_type self pages =
     self\<lparr>bank_type := Some
       (case pages of
          Page (Some first_page_text) tables # _ \<Rightarrow>
            if contains ''HDFC'' (upper first_page_text) then ''HDFC''
            else if contains ''ICICI'' (upper first_page_text) then ''ICICI''
            else if contains ''SBI'' (upper first_page_text) then ''SBI''
            else ''GENERIC''
        | _ \<Rightarrow> ''GENERIC'')\<rparr>"

text \<open>What \<open>pdfplumber.open\<close> gives for a path: the pages, or an exception.\<close>

datatype document = Document "page list" | Unopenable string

datatype parse_result =
  Parse_success "raw_txn list" "string option" nat "string option"
| Parse_error string

definition parse_pdf :: "pdf_parser \<Rightarrow> document \<Rightarrow> parse_result \<times> pdf_parser" where
  "parse_pdf self pdf =
     (case pdf of
        Unopenable msg \<Rightarrow> (Parse_error (''Failed to parse PDF: '' @ msg), self)
      | Document pages \<Rightarrow>
          let self' = foldl extract_from_page (detect_bank_type self pages) pages
          in (Parse_success (transactions self') (bank_type self')
                (length (transactions self')) (statement_date_range self'), self'))"

text \<open>A new instance, as \<open>__init__\<close> leaves it.\<close>

definition new_pdf_parser :: pdf_parser where
  "new_pdf_parser = \<lparr>transactions = [], bank_type = None, statement_date_range = None\<rparr>"

definition new_data_processor :: data_processor where
  "new_data_processor = \<lparr>processed_transactions = [], validation_errors = []\<rparr>"

section \<open>Definitions used by the properties\<close>

text \<open>A word list: no word is empty, no word holds white space.\<close>

definition wordlist :: "string list \<Rightarrow> bool" where
  "wordlist ws = (\<forall>w \<in> set ws. w \<noteq> [] \<and> (\<forall>c \<in> set w. \<not> is_space c))"

text \<open>The input of the spec's scenario A, and a candidate without an amount.\<close>

definition scenario_a :: pydict where
  "scenario_a = [(''date'', PStr ''01-01-2024''),
                 (''description'', PStr ''  ATM   Cash   Withdrawal ''),
                 (''amount'', PInt (- 500)), (''balance'', PInt 1500)]"

definition scenario_a_processed :: processed_txn where
  "scenario_a_processed =
     \<lparr>p_date = PStr ''01-01-2024'', p_description = ''ATM Cash Withdrawal'',
      p_amount = Finite 500, p_type = ''DEBIT'', p_balance = Some (Finite 1500),
      p_category = ''WITHDRAWAL'', p_raw_amount = Finite (- 500), p_row_num = 2\<rparr>"

text \<open>A transaction whose amount is the string \<open>nan\<close>, and a salary payment.\<close>

definition nan_amount :: pydict where
  "nan_amount = [(''date'', PStr ''2024-01-03''), (''description'', PStr ''Adjustment''),
                 (''amount'', PStr ''nan'')]"

definition nan_processed :: processed_txn where
  "nan_processed =
     \<lparr>p_date = PStr ''2024-01-03'', p_description = ''Adjustment'', p_amount = NaN,
      p_type = ''CREDIT'', p_balance = None, p_category = ''OTHER'',
      p_raw_amount = NaN, p_row_num = 2\<rparr>"


definition missing_amount :: pydict where
  "missing_amount = [(''date'', PStr ''2024-01-02''), (''description'', PStr ''Rent'')]"

text \<open>What one pass of the loop adds for the input item at position \<open>k\<close>.\<close>

definition processed_of :: "pydict \<Rightarrow> nat \<Rightarrow> processed_txn list" where
  "processed_of transaction k =
     (case validate_and_clean_transaction transaction k of Inr p \<Rightarrow> [p] | Inl e \<Rightarrow> [])"

definition errors_of :: "pydict \<Rightarrow> nat \<Rightarrow> validation_error list" where
  "errors_of transaction k =
     (case validate_and_clean_transaction transaction k of
        Inr p \<Rightarrow> []
      | Inl e \<Rightarrow> [\<lparr>e_index = k, e_error = e, e_transaction = transaction\<rparr>])"

text \<open>Candidates, rows and pages used in the properties of the PDF Parser.\<close>

definition good_candidate :: "raw_txn \<Rightarrow> bool" where
  "good_candidate t = (nonempty (r_date t) \<and> nonzero (r_amount t))"

definition doc1 :: document where
  "doc1 = Document
     [Page (Some ''HDFC Bank statement'')
        [[[Some ''Date'', Some ''Description'', Some ''Amount''],
          [Some ''01/02/2024'', Some ''Rent'', Some ''-500.00'']]]]"

definition rent :: raw_txn where
  "rent = \<lparr>r_date = Some ''2024-02-01'', r_description = ''Rent'',
           r_amount = Some (Finite (- 500)),
           r_balance = None, r_type = ''DEBIT''\<rparr>"

definition text_rows :: "string option \<Rightarrow> raw_txn list" where
  "text_rows text =
     (case text of
        None \<Rightarrow> []
      | Some t \<Rightarrow> filter (\<lambda>transaction. nonempty (r_date transaction) \<and> nonzero (r_amount transaction))
                   (map text_candidate (finditer t)))"

text \<open>What a page adds to a parser whose list holds \<open>n\<close> transactions.\<close>

definition page_rows :: "nat \<Rightarrow> page \<Rightarrow> raw_txn list" where
  "page_rows n page =
     (case page of
        Unreadable \<Rightarrow> []
      | Page text tables \<Rightarrow>
          concat (map (\<lambda>table. table_rows (drop 1 table)) tables)
          @ (if tables = [] \<or> (n = 0 \<and> concat (map (\<lambda>table. table_rows (drop 1 table)) tables) = [])
             then text_rows text else []))"

definition zero_row :: "cell list" where
  "zero_row = [Some ''01/02/2024'', Some ''Fee waiver'', Some ''0.00'', Some ''1,500.00'']"

definition rent_row :: "cell list" where
  "rent_row = [Some ''01/02/2024'', Some ''Rent'', Some ''-500.00'']"

definition rent_table :: table where
  "rent_table = [[Some ''Date'', Some ''Description'', Some ''Amount''], rent_row]"

definition one_rent :: pdf_parser where
  "one_rent = \<lparr>transactions = [rent], bank_type = Some ''HDFC'', statement_date_range = None\<rparr>"

text \<open>A separator of the date formats.\<close>

definition is_sep :: "char \<Rightarrow> bool" where
  "is_sep c = (c = CHR ''-'' \<or> c = CHR ''/'')"

text \<open>A string whose last four characters are digits.\<close>

definition ends_in_year :: "string \<Rightarrow> bool" where
  "ends_in_year s = (4 \<le> length s \<and> list_all is_digit (drop (length s - 4) s))"

section \<open>Properties of the string operations\<close>

lemma is_space_blank: "is_space (CHR '' '')"
  by (simp add: is_space_def)

lemma dropWhile_hd_id: "xs = [] \<or> \<not> P (hd xs) \<Longrightarrow> dropWhile P xs = xs"
  by (cases xs) auto

lemma split_ws_unfold:
  "dropWhile is_space s = [] \<Longrightarrow> split_ws s = []"
  "dropWhile is_space s \<noteq> [] \<Longrightarrow>
     split_ws s = takeWhile (\<lambda>c. \<not> is_space c) (dropWhile is_space s)
                  # split_ws (dropWhile (\<lambda>c. \<not> is_space c) (dropWhile is_space s))"
  using split_ws.simps [of s] by (simp_all add: Let_def)

lemma split_ws_Nil: "split_ws [] = []"
  by (simp add: split_ws_unfold(1))

lemma split_ws_space: "is_space c \<Longrightarrow> split_ws (c # s) = split_ws s"
  using split_ws.simps [of "c # s"] split_ws.simps [of s] by simp

lemma split_ws_word:
  assumes "w \<noteq> []" "\<forall>c \<in> set w. \<not> is_space c"
  shows "split_ws w = [w]"
    and "is_space b \<Longrightarrow> split_ws (w @ b # s) = w # split_ws s"
proof -
  from assms have c: "\<not> is_space (hd w)" by (cases w) auto
  have d0: "dropWhile is_space w = w" using c by (simp add: dropWhile_hd_id)
  have tw: "takeWhile (\<lambda>c. \<not> is_space c) w = w" using assms by simp
  have dw: "dropWhile (\<lambda>c. \<not> is_space c) w = []" using assms by simp
  show "split_ws w = [w]"
    using assms(1) split_ws_unfold(2) [of w] by (simp add: d0 tw dw split_ws_Nil)
  assume b: "is_space b"
  have d1: "dropWhile is_space (w @ b # s) = w @ b # s"
    using c assms(1) by (intro dropWhile_hd_id) simp
  have t1: "takeWhile (\<lambda>c. \<not> is_space c) (w @ b # s) = w"
    using assms b by (simp add: takeWhile_append2)
  have d2: "dropWhile (\<lambda>c. \<not> is_space c) (w @ b # s) = b # s"
    using assms b by (simp add: dropWhile_append2)
  show "split_ws (w @ b # s) = w # split_ws s"
    using assms(1) b split_ws_unfold(2) [of "w @ b # s"]
    by (simp add: d1 t1 d2 split_ws_space)
qed

lemma wordlist_Cons:
  "wordlist (w # ws) = (w \<noteq> [] \<and> (\<forall>c \<in> set w. \<not> is_space c) \<and> wordlist ws)"
  by (auto simp: wordlist_def)

lemma wordlist_split_ws: "wordlist (split_ws s)"
proof (induction s rule: split_ws.induct)
  case (1 s)
  define s' where "s' = dropWhile is_space s"
  show ?case
  proof (cases "s' = []")
    case True
    then have "split_ws s = []" unfolding s'_def by (rule split_ws_unfold(1))
    then show ?thesis by (simp add: wordlist_def)
  next
    case False
    then have "\<not> is_space (hd s')" unfolding s'_def by (rule hd_dropWhile)
    with False have ne: "takeWhile (\<lambda>c. \<not> is_space c) s' \<noteq> []" by (cases s') simp_all
    have ns: "\<forall>c \<in> set (takeWhile (\<lambda>c. \<not> is_space c) s'). \<not> is_space c"
      using set_takeWhileD by fastforce
    have ih: "wordlist (split_ws (dropWhile (\<lambda>c. \<not> is_space c) s'))"
      using "1.IH" [OF s'_def False] .
    have "split_ws s = takeWhile (\<lambda>c. \<not> is_space c) s'
                       # split_ws (dropWhile (\<lambda>c. \<not> is_space c) s')"
      using False unfolding s'_def by (rule split_ws_unfold(2))
    then show ?thesis using ne ns ih by (simp only: wordlist_Cons) simp
  qed
qed

lemma split_ws_join_sp: "wordlist ws \<Longrightarrow> split_ws (join_sp ws) = ws"
proof (induction ws rule: join_sp.induct)
  case 1
  then show ?case by (simp add: split_ws_Nil)
next
  case (2 w)
  then show ?case by (simp add: wordlist_def split_ws_word(1))
next
  case (3 w v ws)
  then have w: "w \<noteq> []" "\<forall>c \<in> set w. \<not> is_space c" and r: "wordlist (v # ws)"
    by (simp_all add: wordlist_def)
  show ?case
    using split_ws_word(2) [OF w is_space_blank] "3.IH" [OF r] by simp
qed

lemma join_sp_hd:
  "wordlist ws \<Longrightarrow> ws \<noteq> [] \<Longrightarrow> join_sp ws \<noteq> [] \<and> \<not> is_space (hd (join_sp ws))"
  by (induction ws rule: join_sp.induct) (auto simp: wordlist_def)

lemma join_sp_last:
  "wordlist ws \<Longrightarrow> ws \<noteq> [] \<Longrightarrow> join_sp ws \<noteq> [] \<and> \<not> is_space (last (join_sp ws))"
  by (induction ws rule: join_sp.induct) (auto simp: wordlist_def)

lemma strip_id:
  "s = [] \<or> (\<not> is_space (hd s) \<and> \<not> is_space (last s)) \<Longrightarrow> strip s = s"
proof -
  assume a: "s = [] \<or> (\<not> is_space (hd s) \<and> \<not> is_space (last s))"
  then have "dropWhile is_space s = s" by (intro dropWhile_hd_id) auto
  moreover have "dropWhile is_space (rev s) = rev s"
    using a by (intro dropWhile_hd_id) (auto simp: hd_rev)
  ultimately show ?thesis by (simp add: strip_def)
qed

lemma strip_join_sp: "wordlist ws \<Longrightarrow> strip (join_sp ws) = join_sp ws"
  by (cases "ws = []") (auto intro!: strip_id simp: join_sp_hd join_sp_last)

text \<open>Cutting a joined word list and appending a word gives a joined word list again.\<close>

lemma take_join_sp:
  "wordlist ws \<Longrightarrow> d \<noteq> [] \<Longrightarrow> \<forall>c \<in> set d. \<not> is_space c \<Longrightarrow>
     \<exists>ws'. wordlist ws' \<and> take n (join_sp ws) @ d = join_sp ws'"
proof (induction ws arbitrary: n rule: join_sp.induct)
  case 1
  then have "wordlist [d] \<and> take n (join_sp []) @ d = join_sp [d]" by (simp add: wordlist_def)
  then show ?case by blast
next
  case (2 w)
  then have "wordlist [take n w @ d] \<and> take n (join_sp [w]) @ d = join_sp [take n w @ d]"
    by (auto simp: wordlist_def dest: in_set_takeD)
  then show ?case by blast
next
  case (3 w v ws)
  show ?case
  proof (cases "n \<le> length w")
    case True
    with 3 have "wordlist [take n w @ d] \<and> take n (join_sp (w # v # ws)) @ d = join_sp [take n w @ d]"
      by (auto simp: wordlist_def dest: in_set_takeD)
    then show ?thesis by blast
  next
    case False
    then obtain k where k: "n - length w = Suc k" by (cases "n - length w") auto
    from 3 have r: "wordlist (v # ws)" and w: "w \<noteq> []" "\<forall>c \<in> set w. \<not> is_space c"
      by (simp_all add: wordlist_def)
    from "3.IH" [OF r "3.prems"(2,3), of k] obtain ws' where
      ws': "wordlist ws'" "take k (join_sp (v # ws)) @ d = join_sp ws'" by blast
    with "3.prems"(2) have ne: "ws' \<noteq> []" by (cases ws') auto
    then obtain a as where as: "ws' = a # as" by (cases ws') auto
    have "take n (join_sp (w # v # ws)) @ d = w @ CHR '' '' # join_sp ws'"
      using False k ws'(2) by simp
    also have "\<dots> = join_sp (w # ws')" using as by simp
    finally have "wordlist (w # ws') \<and> take n (join_sp (w # v # ws)) @ d = join_sp (w # ws')"
      using ws'(1) w by (simp add: wordlist_def)
    then show ?thesis by blast
  qed
qed

section \<open>Properties of rounding\<close>






section \<open>Description cleaning\<close>

lemma clean_description_wordlist: "\<exists>ws. wordlist ws \<and> clean_description s = join_sp ws"
proof -
  have w: "wordlist (split_ws s)" by (rule wordlist_split_ws)
  show ?thesis
  proof (cases "length (join_sp (split_ws s)) > 100")
    case True
    have "\<exists>ws'. wordlist ws' \<and> take 97 (join_sp (split_ws s)) @ ''...'' = join_sp ws'"
      by (rule take_join_sp [OF w]) (simp_all add: is_space_def)
    with True w show ?thesis by (simp add: clean_description_def strip_join_sp)
  next
    case False
    with w show ?thesis by (auto simp: clean_description_def strip_join_sp)
  qed
qed

lemma clean_description_length: "length (clean_description s) \<le> 100"
  by (simp add: clean_description_def Let_def)

lemma clean_description_fixed:
  "wordlist ws \<Longrightarrow> length (join_sp ws) \<le> 100 \<Longrightarrow> clean_description (join_sp ws) = join_sp ws"
  by (simp add: clean_description_def split_ws_join_sp strip_join_sp)

lemma strip_nospace: "\<forall>c \<in> set s. \<not> is_space c \<Longrightarrow> strip s = s"
  by (cases "s = []") (auto intro!: strip_id)

text \<open>
  C9, as the code has it. Cleaning a cleaned description changes nothing. Truncation
  happens after the white space is collapsed: when the collapsed description is longer
  than 100 characters, the result is its first 97 characters and the marker \<open>...\<close>,
  100 characters in all. That is the case for every description of 150 characters without
  white space, whose result is its own first 97 characters and the marker. When the
  collapsed description has at most 100 characters, it is the result, whatever the length
  of the description.
\<close>

theorem clean_description_idempotent:
  "clean_description (clean_description s) = clean_description s
   \<and> (100 < length (join_sp (split_ws s)) \<longrightarrow>
        clean_description s = take 97 (join_sp (split_ws s)) @ ''...''
        \<and> length (clean_description s) = 100)
   \<and> (length s = 150 \<and> (\<forall>c \<in> set s. \<not> is_space c) \<longrightarrow>
        clean_description s = take 97 s @ ''...'' \<and> length (clean_description s) = 100)
   \<and> (length (join_sp (split_ws s)) \<le> 100 \<longrightarrow> clean_description s = join_sp (split_ws s))"
proof (intro conjI impI)
  obtain ws where ws: "wordlist ws" "clean_description s = join_sp ws"
    using clean_description_wordlist by blast
  have "length (join_sp ws) \<le> 100" using clean_description_length [of s] ws(2) by simp
  then show "clean_description (clean_description s) = clean_description s"
    using ws by (simp add: clean_description_fixed)
next
  assume l: "100 < length (join_sp (split_ws s))"
  then show c: "clean_description s = take 97 (join_sp (split_ws s)) @ ''...''"
    by (simp add: clean_description_def strip_join_sp wordlist_split_ws)
  show "length (clean_description s) = 100" unfolding c using l by simp
next
  assume a: "length s = 150 \<and> (\<forall>c \<in> set s. \<not> is_space c)"
  then have "s \<noteq> []" by auto
  with a have "split_ws s = [s]" by (simp add: split_ws_word(1))
  with a show c: "clean_description s = take 97 s @ ''...''"
    by (simp add: clean_description_def strip_nospace)
  show "length (clean_description s) = 100" unfolding c using a by simp
next
  assume "length (join_sp (split_ws s)) \<le> 100"
  then show "clean_description s = join_sp (split_ws s)"
    by (simp add: clean_description_def strip_join_sp wordlist_split_ws)
qed

theorem clean_description_idempotent_witness:
  "100 < length (join_sp (split_ws (replicate 150 CHR ''x'')))
   \<and> length (replicate 150 CHR ''x'') = 150
   \<and> list_all (\<lambda>c. \<not> is_space c) (replicate 150 CHR ''x'')
   \<and> clean_description (replicate 150 CHR ''x'') = take 97 (replicate 150 CHR ''x'') @ ''...''
   \<and> length (clean_description (replicate 150 CHR ''x'')) = 100
   \<and> clean_description (clean_description (replicate 150 CHR ''x''))
       = clean_description (replicate 150 CHR ''x'')
   \<and> length (join_sp (split_ws (''PAYMENT'' @ replicate 136 CHR '' '' @ ''REF 123''))) \<le> 100
   \<and> join_sp (split_ws (''PAYMENT'' @ replicate 136 CHR '' '' @ ''REF 123'')) = ''PAYMENT REF 123''
   \<and> clean_description (''PAYMENT'' @ replicate 136 CHR '' '' @ ''REF 123'') = ''PAYMENT REF 123''"
proof -
  have h4: "join_sp (split_ws (''PAYMENT'' @ replicate 136 CHR '' '' @ ''REF 123''))
            = ''PAYMENT REF 123''"
    by code_simp
  then have h5: "length (join_sp (split_ws (''PAYMENT'' @ replicate 136 CHR '' '' @ ''REF 123'')))
                 \<le> 100"
    by simp
  from h5 clean_description_idempotent [of "''PAYMENT'' @ replicate 136 CHR '' '' @ ''REF 123''"]
  have "clean_description (''PAYMENT'' @ replicate 136 CHR '' '' @ ''REF 123'')
        = join_sp (split_ws (''PAYMENT'' @ replicate 136 CHR '' '' @ ''REF 123''))"
    by blast
  then have h6: "clean_description (''PAYMENT'' @ replicate 136 CHR '' '' @ ''REF 123'')
                 = ''PAYMENT REF 123''"
    by (simp only: h4)
  have h1: "100 < length (join_sp (split_ws (replicate 150 CHR ''x'')))" by code_simp
  have h2: "length (replicate 150 CHR ''x'') = 150 \<and> (\<forall>c \<in> set (replicate 150 CHR ''x''). \<not> is_space c)"
    by (simp add: is_space_def)
  have h3: "list_all (\<lambda>c. \<not> is_space c) (replicate 150 CHR ''x'')"
    by (simp add: list_all_iff is_space_def)
  show ?thesis
    using h1 h2 h3 h4 h5 h6 clean_description_idempotent [of "replicate 150 CHR ''x''"] by blast
qed

text \<open>
  C9, as stated for every description of 150 characters, fails: white space is collapsed
  before the length is tested, so a description of 150 characters with a long run of
  blanks is cleaned to fewer than 100 characters and gets no marker.
\<close>

theorem clean_description_150_counterexample:
  "length (''PAYMENT'' @ replicate 136 CHR '' '' @ ''REF 123'') = 150
   \<and> clean_description (''PAYMENT'' @ replicate 136 CHR '' '' @ ''REF 123'') = ''PAYMENT REF 123''
   \<and> length (clean_description (''PAYMENT'' @ replicate 136 CHR '' '' @ ''REF 123'')) \<noteq> 100"
  by code_simp

section \<open>Validation and cleaning of one transaction\<close>

lemma dict_get_other: "k \<noteq> k' \<Longrightarrow> dict_get ((k', v) # d) k = dict_get d k"
  by (simp add: dict_get_def)

lemma validate_and_clean_transaction_Inr:
  assumes "validate_and_clean_transaction transaction idx = Inr p"
  obtains d a b where
    "truthy (dict_get transaction ''date'')"
    "dict_get transaction ''description'' = PStr d" "strip d \<noteq> []"
    "dict_get transaction ''amount'' \<noteq> PNone"
    "to_float (dict_get transaction ''amount'') = Inr a"
    "p = \<lparr>p_date = dict_get transaction ''date'', p_description = clean_description d,
          p_amount = float_abs a,
          p_type = (if float_lt_zero a then ''DEBIT'' else ''CREDIT''),
          p_balance = b, p_category = categorize_transaction (clean_description d),
          p_raw_amount = a, p_row_num = idx + 2\<rparr>"
  using assms unfolding validate_and_clean_transaction_def Let_def
  by (auto split: if_splits pyval.splits sum.splits)

lemma float_eq_refl: "x \<noteq> NaN \<Longrightarrow> float_eq x x"
  by (simp add: float_eq_def)

lemma float_abs_NaN: "float_abs x = NaN \<longleftrightarrow> x = NaN"
  by (cases x) simp_all

text \<open>
  C1, as the code has it. A processed transaction that \<open>validate_and_clean_transaction\<close>
  returns has \<open>amount\<close> the value \<open>abs(raw_amount)\<close>, and \<open>amount == abs(raw_amount)\<close>
  holds whenever \<open>raw_amount\<close> is not NaN; its type is \<open>DEBIT\<close> exactly when
  \<open>raw_amount < 0\<close> and \<open>CREDIT\<close> otherwise, so that a NaN is a \<open>CREDIT\<close>; its date is
  the date of the input and is not \<open>None\<close>; the amount of the input is not \<open>None\<close> and
  \<open>raw_amount\<close> is its float value. A \<open>type\<close> entry on the input changes nothing.
\<close>

theorem validate_and_clean_transaction_invariant:
  assumes "validate_and_clean_transaction transaction idx = Inr p"
  shows "p_amount p = float_abs (p_raw_amount p)
         \<and> (p_raw_amount p \<noteq> NaN \<longrightarrow> float_eq (p_amount p) (float_abs (p_raw_amount p)))
         \<and> (p_type p = ''DEBIT'' \<longleftrightarrow> float_lt_zero (p_raw_amount p))
         \<and> (p_type p = ''CREDIT'' \<longleftrightarrow> \<not> float_lt_zero (p_raw_amount p))
         \<and> p_date p \<noteq> PNone \<and> p_date p = dict_get transaction ''date''
         \<and> dict_get transaction ''amount'' \<noteq> PNone
         \<and> to_float (dict_get transaction ''amount'') = Inr (p_raw_amount p)
         \<and> validate_and_clean_transaction ((''type'', v) # transaction) idx = Inr p"
proof -
  from assms obtain d a b where
    h: "truthy (dict_get transaction ''date'')"
       "dict_get transaction ''amount'' \<noteq> PNone"
       "to_float (dict_get transaction ''amount'') = Inr a"
    and p: "p = \<lparr>p_date = dict_get transaction ''date'', p_description = clean_description d,
          p_amount = float_abs a,
          p_type = (if float_lt_zero a then ''DEBIT'' else ''CREDIT''),
          p_balance = b, p_category = categorize_transaction (clean_description d),
          p_raw_amount = a, p_row_num = idx + 2\<rparr>"
    by (rule validate_and_clean_transaction_Inr)
  have "validate_and_clean_transaction ((''type'', v) # transaction) idx
        = validate_and_clean_transaction transaction idx"
    by (simp add: validate_and_clean_transaction_def dict_get_other)
  moreover from h(1) have "dict_get transaction ''date'' \<noteq> PNone" by auto
  moreover have "a \<noteq> NaN \<longrightarrow> float_eq (float_abs a) (float_abs a)"
    by (simp add: float_eq_refl float_abs_NaN)
  ultimately show ?thesis using assms h p by simp
qed

lemma scenario_a_validate:
  "validate_and_clean_transaction scenario_a 0 = Inr scenario_a_processed"
  unfolding scenario_a_def scenario_a_processed_def by code_simp

theorem validate_and_clean_transaction_invariant_witness:
  "validate_and_clean_transaction scenario_a 0 = Inr scenario_a_processed
   \<and> p_raw_amount scenario_a_processed = Finite (- 500)
   \<and> p_amount scenario_a_processed = Finite 500
   \<and> float_eq (p_amount scenario_a_processed) (float_abs (p_raw_amount scenario_a_processed))
   \<and> p_type scenario_a_processed = ''DEBIT'' \<and> float_lt_zero (p_raw_amount scenario_a_processed)
   \<and> p_date scenario_a_processed = PStr ''01-01-2024''
   \<and> validate_and_clean_transaction ((''type'', PStr ''CREDIT'') # scenario_a) 0
       = Inr scenario_a_processed"
  using validate_and_clean_transaction_invariant [OF scenario_a_validate, of "PStr ''CREDIT''"]
    scenario_a_validate
  by (simp add: scenario_a_processed_def)

text \<open>
  C1 as stated fails: the amount \<open>nan\<close> is accepted, the processed transaction has
  \<open>amount\<close> and \<open>raw_amount\<close> NaN, and \<open>amount == abs(raw_amount)\<close> is false.
\<close>

theorem validate_and_clean_transaction_nan_counterexample:
  "validate_and_clean_transaction nan_amount 0 = Inr nan_processed
   \<and> p_amount nan_processed = NaN \<and> p_raw_amount nan_processed = NaN
   \<and> \<not> float_eq (p_amount nan_processed) (float_abs (p_raw_amount nan_processed))"
  unfolding nan_amount_def nan_processed_def by code_simp

text \<open>
  C2, as the code has it. On the batch of scenario A the Data Processor returns one
  processed transaction and the summary the scenario gives, but the date is the input's
  \<open>01-01-2024\<close>: the Data Processor passes dates through and normalises none.
\<close>

theorem scenario_a_result:
  "fst (process_transactions new_data_processor [scenario_a])
   = \<lparr>res_status = ''success'',
      res_transactions =
        [\<lparr>p_date = PStr ''01-01-2024'', p_description = ''ATM Cash Withdrawal'',
          p_amount = Finite 500, p_type = ''DEBIT'', p_balance = Some (Finite 1500),
          p_category = ''WITHDRAWAL'', p_raw_amount = Finite (- 500), p_row_num = 2\<rparr>],
      res_total_processed = 1, res_total_errors = 0, res_validation_errors = [],
      res_summary =
        \<lparr>total_transactions = 1, total_credits = Finite 0, total_debits = Finite 500,
         net_amount = Finite (- 500),
         opening_balance = Some (Finite 1500), closing_balance = Some (Finite 1500)\<rparr>\<rparr>"
  unfolding scenario_a_def new_data_processor_def by code_simp

text \<open>C2 as stated fails: the date of the processed transaction is not \<open>2024-01-01\<close>.\<close>

theorem scenario_a_date_counterexample:
  "map p_date (res_transactions (fst (process_transactions new_data_processor [scenario_a])))
     = [PStr ''01-01-2024'']
   \<and> map p_date (res_transactions (fst (process_transactions new_data_processor [scenario_a])))
     \<noteq> [PStr ''2024-01-01'']"
  unfolding scenario_a_def new_data_processor_def by code_simp

section \<open>The batch\<close>

lemma validate_row_num:
  "validate_and_clean_transaction transaction idx = Inr p \<Longrightarrow> p_row_num p = idx + 2"
  unfolding validate_and_clean_transaction_def Let_def
  by (auto split: if_splits pyval.splits sum.splits)



lemma process_loop_lists:
  "processed_transactions (process_loop i ts self)
     = processed_transactions self @ concat (map (\<lambda>(k, t). processed_of t k) (zip [i..<i + length ts] ts))
   \<and> validation_errors (process_loop i ts self)
     = validation_errors self @ concat (map (\<lambda>(k, t). errors_of t k) (zip [i..<i + length ts] ts))"
proof (induction ts arbitrary: i self)
  case Nil
  then show ?case by simp
next
  case (Cons t ts)
  have u: "[i..<i + length (t # ts)] = i # [Suc i..<Suc i + length ts]"
    by (simp add: upt_rec)
  show ?case
    unfolding u using Cons.IH [of "Suc i"]
    by (cases "validate_and_clean_transaction t i") (simp_all add: processed_of_def errors_of_def)
qed

lemma filter_processed_of:
  "filter (\<lambda>q. p_row_num q = k + 2) (processed_of t j) = (if j = k then processed_of t k else [])"
  by (auto simp: processed_of_def validate_row_num split: sum.splits)

lemma filter_errors_of:
  "filter (\<lambda>e. e_index e = k) (errors_of t j) = (if j = k then errors_of t k else [])"
  by (auto simp: errors_of_def split: sum.splits)

lemma filter_concat_enum:
  assumes "\<And>j t. filter P (f t j) = (if j = k then f t k else [])"
  shows "filter P (concat (map (\<lambda>(j, t). f t j) (zip [i..<i + length ts] ts)))
         = (if i \<le> k \<and> k < i + length ts then f (ts ! (k - i)) k else [])"
proof (induction ts arbitrary: i)
  case Nil
  then show ?case by auto
next
  case (Cons t ts)
  have u: "[i..<i + length (t # ts)] = i # [Suc i..<Suc i + length ts]"
    by (simp add: upt_rec)
  show ?case
  proof (cases "i = k")
    case True
    then show ?thesis unfolding u using Cons.IH [of "Suc i"] by (simp add: assms)
  next
    case False
    then show ?thesis unfolding u using Cons.IH [of "Suc i"]
      by (auto simp: assms Suc_diff_le nth_Cons')
  qed
qed

lemma length_outcomes: "length (processed_of t k) + length (errors_of t k) = 1"
  by (simp add: processed_of_def errors_of_def split: sum.splits)

lemma length_process_loop:
  "length (processed_transactions (process_loop i ts self))
   + length (validation_errors (process_loop i ts self))
   = length (processed_transactions self) + length (validation_errors self) + length ts"
  by (induction ts arbitrary: i self) (auto split: sum.splits)

text \<open>
  C7. For a batch of \<open>N\<close> items, \<open>total_processed + total_errors = N\<close>, and every
  position \<open>k\<close> has exactly one outcome, decided by item \<open>k\<close> alone: when the item
  validates, the one processed transaction with \<open>row_num = k + 2\<close> and no error with
  index \<open>k\<close>; when it fails, the one error with index \<open>k\<close>, carrying the exception and
  the item, and no processed transaction with \<open>row_num = k + 2\<close>.
\<close>

theorem process_transactions_one_outcome_per_index:
  assumes "process_transactions self batch = (result, self')"
  shows "res_total_processed result + res_total_errors result = length batch
         \<and> res_total_processed result = length (res_transactions result)
         \<and> res_total_errors result = length (res_validation_errors result)
         \<and> (\<forall>k < length batch.
              (case validate_and_clean_transaction (batch ! k) k of
                 Inr p \<Rightarrow>
                   filter (\<lambda>q. p_row_num q = k + 2) (res_transactions result) = [p]
                   \<and> filter (\<lambda>e. e_index e = k) (res_validation_errors result) = []
               | Inl e \<Rightarrow>
                   filter (\<lambda>e. e_index e = k) (res_validation_errors result)
                     = [\<lparr>e_index = k, e_error = e, e_transaction = batch ! k\<rparr>]
                   \<and> filter (\<lambda>q. p_row_num q = k + 2) (res_transactions result) = []))"
proof -
  define s0 where "s0 = self\<lparr>processed_transactions := [], validation_errors := []\<rparr>"
  have r: "res_transactions result = processed_transactions (process_loop 0 batch s0)"
    "res_validation_errors result = validation_errors (process_loop 0 batch s0)"
    "res_total_processed result = length (res_transactions result)"
    "res_total_errors result = length (res_validation_errors result)"
    using assms by (auto simp: process_transactions_def Let_def s0_def)
  have n: "res_total_processed result + res_total_errors result = length batch"
    unfolding r using length_process_loop [of 0 batch s0] by (simp add: s0_def)
  have p: "res_transactions result
           = concat (map (\<lambda>(k, t). processed_of t k) (zip [0..<0 + length batch] batch))"
    and e: "res_validation_errors result
           = concat (map (\<lambda>(k, t). errors_of t k) (zip [0..<0 + length batch] batch))"
    unfolding r using process_loop_lists [of 0 batch s0] by (simp_all add: s0_def)
  have "filter (\<lambda>q. p_row_num q = k + 2) (res_transactions result) = processed_of (batch ! k) k
        \<and> filter (\<lambda>e. e_index e = k) (res_validation_errors result) = errors_of (batch ! k) k"
    if "k < length batch" for k
  proof -
    have "filter (\<lambda>q. p_row_num q = k + 2)
            (concat (map (\<lambda>(j, t). processed_of t j) (zip [0..<0 + length batch] batch)))
          = (if 0 \<le> k \<and> k < 0 + length batch then processed_of (batch ! (k - 0)) k else [])"
      by (rule filter_concat_enum [OF filter_processed_of])
    moreover have "filter (\<lambda>e. e_index e = k)
            (concat (map (\<lambda>(j, t). errors_of t j) (zip [0..<0 + length batch] batch)))
          = (if 0 \<le> k \<and> k < 0 + length batch then errors_of (batch ! (k - 0)) k else [])"
      by (rule filter_concat_enum [OF filter_errors_of])
    ultimately show ?thesis unfolding p e using that by simp
  qed
  then have "\<forall>k < length batch.
              (case validate_and_clean_transaction (batch ! k) k of
                 Inr p \<Rightarrow>
                   filter (\<lambda>q. p_row_num q = k + 2) (res_transactions result) = [p]
                   \<and> filter (\<lambda>e. e_index e = k) (res_validation_errors result) = []
               | Inl e \<Rightarrow>
                   filter (\<lambda>e. e_index e = k) (res_validation_errors result)
                     = [\<lparr>e_index = k, e_error = e, e_transaction = batch ! k\<rparr>]
                   \<and> filter (\<lambda>q. p_row_num q = k + 2) (res_transactions result) = [])"
    by (auto simp: processed_of_def errors_of_def split: sum.splits)
  with n r show ?thesis by simp
qed


theorem process_transactions_one_outcome_per_index_witness:
  "res_total_processed (fst (process_transactions new_data_processor
       [scenario_a, missing_amount, scenario_a]))
     + res_total_errors (fst (process_transactions new_data_processor
       [scenario_a, missing_amount, scenario_a])) = 3
   \<and> map e_index (res_validation_errors (fst (process_transactions new_data_processor
       [scenario_a, missing_amount, scenario_a]))) = [1]
   \<and> map e_error (res_validation_errors (fst (process_transactions new_data_processor
       [scenario_a, missing_amount, scenario_a]))) = [ValueError ''Missing amount'']
   \<and> map p_row_num (res_transactions (fst (process_transactions new_data_processor
       [scenario_a, missing_amount, scenario_a]))) = [2, 4]"
proof -
  let ?b = "[scenario_a, missing_amount, scenario_a]"
  let ?r = "process_transactions new_data_processor ?b"
  have "?r = (fst ?r, snd ?r)" by simp
  from process_transactions_one_outcome_per_index [OF this]
  have "res_total_processed (fst ?r) + res_total_errors (fst ?r) = length ?b" by blast
  moreover have "map e_index (res_validation_errors (fst ?r)) = [1]"
    "map e_error (res_validation_errors (fst ?r)) = [ValueError ''Missing amount'']"
    "map p_row_num (res_transactions (fst ?r)) = [2, 4]"
    unfolding scenario_a_def missing_amount_def new_data_processor_def by code_simp+
  ultimately show ?thesis by simp
qed











section \<open>Amounts\<close>












lemma of_magnitude_small: "q < 2 ^ 64 \<Longrightarrow> q = 0 \<or> 1 \<le> q \<Longrightarrow> of_magnitude q = Finite q"
proof -
  assume q: "q < 2 ^ 64" and z: "q = 0 \<or> 1 \<le> q"
  have "(1 :: rat) / 2 ^ 1075 < 1" by simp
  with z have u: "q = 0 \<or> \<not> q \<le> 1 / 2 ^ 1075" by linarith
  have "(2 :: int) ^ 64 * 1 \<le> 2 ^ 64 * (2 ^ 960 - 2 ^ 906)"
    by (intro mult_left_mono) simp_all
  also have "\<dots> = float_overflow"
    by (simp add: float_overflow_def right_diff_distrib power_add [symmetric])
  finally have "(of_int (2 ^ 64) :: rat) \<le> of_int float_overflow"
    by (simp only: of_int_le_iff mult_1_right)
  with q u show ?thesis by (auto simp: of_magnitude_def)
qed


lemma round_half_even_int: "round_half_even (of_int k) = k"
  by (simp add: round_half_even_def)




section \<open>Rows, pages and documents\<close>

lemma float_nonzero_iff: "float_nonzero a \<longleftrightarrow> a \<noteq> Finite 0"
  by (cases a) simp_all

lemma parse_row_good: "parse_row row = Some t \<Longrightarrow> good_candidate t"
  by (auto simp: parse_row_def Let_def good_candidate_def nonempty_def nonzero_def
      split: if_splits option.splits)

lemma list_all_table_rows: "list_all good_candidate (table_rows rs)"
proof (induction rs)
  case Nil
  then show ?case by simp
next
  case (Cons r rs)
  have "list_all good_candidate
          (case parse_row r of Some transaction \<Rightarrow> [transaction] | None \<Rightarrow> [])"
    by (cases "parse_row r") (simp_all add: parse_row_good)
  with Cons show ?case by simp
qed

lemma table_rows_good: "\<forall>t \<in> set (table_rows rs). good_candidate t"
  using list_all_table_rows [of rs] by (simp only: list_all_iff)

lemma transactions_extract_from_table:
  "transactions (extract_from_table self table) = transactions self @ table_rows (drop 1 table)"
  by (simp add: extract_from_table_def)

lemma transactions_foldl_tables:
  "transactions (foldl extract_from_table self tables)
   = transactions self @ concat (map (\<lambda>table. table_rows (drop 1 table)) tables)"
  by (induction tables arbitrary: self) (simp_all add: transactions_extract_from_table)

lemma transactions_extract_from_text:
  "transactions (extract_from_text self text) = transactions self @ text_rows text"
  by (simp add: extract_from_text_def text_rows_def split: option.splits)

lemma text_rows_good: "\<forall>t \<in> set (text_rows text). good_candidate t"
  by (auto simp: text_rows_def good_candidate_def split: option.splits)

lemma transactions_extract_from_page:
  "transactions (extract_from_page self page)
   = transactions self @ page_rows (length (transactions self)) page"
  by (cases page)
     (simp_all add: extract_from_page_def page_rows_def Let_def transactions_foldl_tables
        transactions_extract_from_text)

lemma page_rows_good: "\<forall>t \<in> set (page_rows n page). good_candidate t"
  using table_rows_good text_rows_good
  by (cases page) (auto simp: page_rows_def)

lemma foldl_pages_appends:
  "\<exists>new. transactions (foldl extract_from_page self pages) = transactions self @ new
         \<and> (\<forall>t \<in> set new. good_candidate t)"
proof (induction pages arbitrary: self)
  case Nil
  then show ?case by simp
next
  case (Cons page pages)
  obtain new where n: "transactions (foldl extract_from_page (extract_from_page self page) pages)
      = transactions (extract_from_page self page) @ new" "\<forall>t \<in> set new. good_candidate t"
    using Cons.IH by blast
  let ?p = "page_rows (length (transactions self)) page"
  have "transactions (foldl extract_from_page self (page # pages)) = transactions self @ (?p @ new)"
    using n(1) by (simp add: transactions_extract_from_page)
  moreover have "\<forall>t \<in> set (?p @ new). good_candidate t" using n(2) page_rows_good by auto
  ultimately show ?case by blast
qed

lemma parse_pdf_appends:
  "\<exists>new. transactions (snd (parse_pdf self pdf)) = transactions self @ new
         \<and> (\<forall>t \<in> set new. good_candidate t)"
proof (cases pdf)
  case (Document pages)
  have "transactions (detect_bank_type self pages) = transactions self"
    by (simp add: detect_bank_type_def)
  then show ?thesis
    using foldl_pages_appends [of "detect_bank_type self pages" pages] Document
    by (simp add: parse_pdf_def Let_def)
next
  case (Unopenable msg)
  then show ?thesis by (simp add: parse_pdf_def)
qed

text \<open>
  C10. Every candidate the PDF Parser appends has a date that is neither \<open>None\<close> nor empty
  and an amount that is neither \<open>None\<close> nor zero: the one \<open>parse_row\<close> returns, those
  \<open>extract_from_text\<close> appends, and all that one call of \<open>parse_pdf\<close> appends. A table
  row of three or more cells whose amount cell parses to exactly 0 gives no candidate, and
  a text match whose amount token parses to exactly 0 is not among the candidates kept.
\<close>

theorem candidates_have_date_and_nonzero_amount:
  "(parse_row row = Some t \<longrightarrow>
      r_date t \<noteq> None \<and> r_date t \<noteq> Some [] \<and> r_amount t \<noteq> None \<and> r_amount t \<noteq> Some (Finite 0))
   \<and> (\<exists>new. transactions (extract_from_text self text) = transactions self @ new
         \<and> (\<forall>t \<in> set new. r_date t \<noteq> None \<and> r_date t \<noteq> Some []
                \<and> r_amount t \<noteq> None \<and> r_amount t \<noteq> Some (Finite 0)))
   \<and> (\<exists>new. transactions (snd (parse_pdf self pdf)) = transactions self @ new
         \<and> (\<forall>t \<in> set new. r_date t \<noteq> None \<and> r_date t \<noteq> Some []
                \<and> r_amount t \<noteq> None \<and> r_amount t \<noteq> Some (Finite 0)))
   \<and> (3 \<le> length row0 \<and> parse_amount (cell_str (row0 ! 2)) = Some (Finite 0) \<longrightarrow> parse_row row0 = None)
   \<and> (parse_amount (Some amount) = Some (Finite 0) \<longrightarrow>
        text_candidate (date_str, description, amount, balance)
          \<notin> set (filter (\<lambda>transaction. nonempty (r_date transaction) \<and> nonzero (r_amount transaction))
                   (map text_candidate (finditer page_text))))"
proof -
  have g: "good_candidate t = (r_date t \<noteq> None \<and> r_date t \<noteq> Some [] \<and> r_amount t \<noteq> None
      \<and> r_amount t \<noteq> Some (Finite 0))" for t
    by (auto simp: good_candidate_def nonempty_def nonzero_def float_nonzero_iff
        split: option.splits)
  have a: "parse_row row = Some t \<longrightarrow>
      r_date t \<noteq> None \<and> r_date t \<noteq> Some [] \<and> r_amount t \<noteq> None \<and> r_amount t \<noteq> Some (Finite 0)"
    using parse_row_good [of row t] by (simp add: g)
  have b: "\<exists>new. transactions (extract_from_text self text) = transactions self @ new
         \<and> (\<forall>t \<in> set new. r_date t \<noteq> None \<and> r_date t \<noteq> Some []
                \<and> r_amount t \<noteq> None \<and> r_amount t \<noteq> Some (Finite 0))"
    using transactions_extract_from_text [of self "text"] text_rows_good [of "text"]
    by (simp only: g) blast
  have c: "\<exists>new. transactions (snd (parse_pdf self pdf)) = transactions self @ new
         \<and> (\<forall>t \<in> set new. r_date t \<noteq> None \<and> r_date t \<noteq> Some []
                \<and> r_amount t \<noteq> None \<and> r_amount t \<noteq> Some (Finite 0))"
    using parse_pdf_appends [of self pdf] by (simp only: g)
  have d: "3 \<le> length row0 \<and> parse_amount (cell_str (row0 ! 2)) = Some (Finite 0) \<longrightarrow> parse_row row0 = None"
    by (auto simp: parse_row_def Let_def cell_str_def split: option.splits if_splits)
  have e: "parse_amount (Some amount) = Some (Finite 0) \<longrightarrow>
        text_candidate (date_str, description, amount, balance)
          \<notin> set (filter (\<lambda>transaction. nonempty (r_date transaction) \<and> nonzero (r_amount transaction))
                   (map text_candidate (finditer page_text)))"
    by (auto simp: text_candidate_def nonzero_def)
  from a b c d e show ?thesis by blast
qed


lemma parse_date_example: "parse_date ''01/02/2024'' = Some ''2024-02-01''"
  by code_simp

lemma float_unsigned_examples:
  "float_unsigned ''500.00'' = Some 500" "float_unsigned ''0.00'' = Some 0"
  by (simp_all add: float_unsigned_def is_digit_def digits_val_def digit_val_def)

lemma py_round2_of_int: "py_round2 (of_int k) = of_int k"
proof -
  have "round_half_even (of_int k * 100) = k * 100"
    using round_half_even_int [of "k * 100"] by simp
  then show ?thesis by (simp add: py_round2_def)
qed

lemma py_round2_examples: "py_round2 (- 500) = - 500" "py_round2 0 = 0"
  using py_round2_of_int [of "- 500"] py_round2_of_int [of 0] by simp_all

lemma py_float_examples:
  "py_float ''500.00'' = Some (Finite 500)" "py_float ''0.00'' = Some (Finite 0)"
  by (simp_all add: py_float_def float_absvalue_def strip_def is_space_def
      float_unsigned_examples lower_def lower_char_def of_magnitude_small)

lemma parse_amount_examples:
  "parse_amount (Some ''-500.00'') = Some (Finite (- 500))"
  "parse_amount (Some ''0.00'') = Some (Finite 0)"
  unfolding parse_amount_def
  by (simp_all add: strip_def is_space_def py_float_examples py_round2_examples)

lemma parse_row_rent: "parse_row rent_row = Some rent"
  unfolding parse_row_def rent_row_def rent_def
  by (simp add: cell_str_def strip_def is_space_def nonempty_def parse_date_example
      parse_amount_examples)

lemma finditer_fee_waiver:
  "finditer ''01-02-2024 Fee waiver 0.00 1,500.00''
   = [(''01-02-2024'', ''Fee waiver'', ''0.00'', ''1,500.00'')]"
  by code_simp

lemma extract_from_text_fee_waiver:
  "transactions (extract_from_text new_pdf_parser (Some ''01-02-2024 Fee waiver 0.00 1,500.00''))
   = []"
  by (simp add: extract_from_text_def finditer_fee_waiver text_candidate_def nonzero_def
      parse_amount_examples new_pdf_parser_def)

theorem candidates_have_date_and_nonzero_amount_witness:
  "parse_row rent_row = Some rent
   \<and> r_date rent = Some ''2024-02-01'' \<and> r_amount rent = Some (Finite (- 500))
   \<and> 3 \<le> length zero_row \<and> parse_amount (cell_str (zero_row ! 2)) = Some (Finite 0)
   \<and> parse_row zero_row = None
   \<and> parse_amount (Some ''0.00'') = Some (Finite 0)
   \<and> text_candidate (''01-02-2024'', ''Fee waiver'', ''0.00'', ''1,500.00'')
         \<notin> set (filter (\<lambda>transaction. nonempty (r_date transaction) \<and> nonzero (r_amount transaction))
                  (map text_candidate (finditer ''01-02-2024 Fee waiver 0.00 1,500.00'')))
   \<and> transactions
         (extract_from_text new_pdf_parser (Some ''01-02-2024 Fee waiver 0.00 1,500.00'')) = []"
proof -
  have z: "3 \<le> length zero_row \<and> parse_amount (cell_str (zero_row ! 2)) = Some (Finite 0)"
    by (simp add: zero_row_def cell_str_def strip_def is_space_def parse_amount_examples)
  have r: "r_date rent = Some ''2024-02-01'' \<and> r_amount rent = Some (Finite (- 500))"
    by (simp add: rent_def)
  from parse_row_rent z r parse_amount_examples(2) extract_from_text_fee_waiver
    candidates_have_date_and_nonzero_amount
      [of rent_row rent new_pdf_parser None "Unopenable []" zero_row "''0.00''"
          "''01-02-2024''" "''Fee waiver''" "''1,500.00''" "''01-02-2024 Fee waiver 0.00 1,500.00''"]
  show ?thesis by blast
qed

lemma foldl_extract_from_table:
  "foldl extract_from_table self tables
   = self\<lparr>transactions := transactions self
            @ concat (map (\<lambda>table. table_rows (drop 1 table)) tables)\<rparr>"
  by (induction tables arbitrary: self) (simp_all add: extract_from_table_def)

lemma concat_eq_Nil_ball: "(concat (map f xs) = []) = (\<forall>x \<in> set xs. f x = [])"
  by (induction xs) auto

text \<open>
  C5. On a page whose text and tables can be read, the text variant runs after the tables
  exactly when the page has no table, or the list of the parser was empty on entry and
  no row of the page's tables gave a candidate, that is, when the list accumulated over
  the whole document is still empty; otherwise the page is handled by the tables alone.
  A page without tables is handled by the text variant alone; a page with tables, reached
  with a list that is not empty, never by the text variant.
\<close>

theorem extract_from_page_text_fallback:
  "extract_from_page self (Page text tables)
     = (if tables = [] \<or> (transactions self = []
                            \<and> (\<forall>table \<in> set tables. table_rows (drop 1 table) = []))
        then extract_from_text (foldl extract_from_table self tables) text
        else foldl extract_from_table self tables)
   \<and> transactions (foldl extract_from_table self tables)
     = transactions self @ concat (map (\<lambda>table. table_rows (drop 1 table)) tables)
   \<and> extract_from_page self (Page text []) = extract_from_text self text
   \<and> (tables \<noteq> [] \<and> transactions self \<noteq> [] \<longrightarrow>
        extract_from_page self (Page text tables) = foldl extract_from_table self tables)"
  by (auto simp: extract_from_page_def Let_def transactions_foldl_tables concat_eq_Nil_ball)

lemma table_rows_rent: "table_rows (drop 1 rent_table) = [rent]"
  using parse_row_rent by (simp add: rent_table_def) (simp add: rent_row_def)

lemma table_rows_rent_Suc: "table_rows (drop (Suc 0) rent_table) = [rent]"
  using table_rows_rent by simp

theorem extract_from_page_text_fallback_witness:
  "[rent_table] \<noteq> [] \<and> transactions one_rent \<noteq> []
   \<and> extract_from_page one_rent (Page (Some ''01-02-2024 Coffee 12.50 100.00'') [rent_table])
     = foldl extract_from_table one_rent [rent_table]
   \<and> transactions (foldl extract_from_table one_rent [rent_table]) = [rent, rent]"
proof -
  have h: "[rent_table] \<noteq> [] \<and> transactions one_rent \<noteq> []" by (simp add: one_rent_def)
  have t: "transactions one_rent = [rent]" by (simp add: one_rent_def)
  have c: "concat (map (\<lambda>table. table_rows (drop 1 table)) [rent_table]) = [rent]"
    using table_rows_rent by simp
  note th = extract_from_page_text_fallback
    [of one_rent "Some ''01-02-2024 Coffee 12.50 100.00''" "[rent_table]"]
  from th have "transactions (foldl extract_from_table one_rent [rent_table])
      = transactions one_rent @ concat (map (\<lambda>table. table_rows (drop 1 table)) [rent_table])"
    by blast
  then have a: "transactions (foldl extract_from_table one_rent [rent_table]) = [rent, rent]"
    unfolding c t by simp
  from th h have "extract_from_page one_rent
      (Page (Some ''01-02-2024 Coffee 12.50 100.00'') [rent_table])
      = foldl extract_from_table one_rent [rent_table]"
    by blast
  with h a show ?thesis by blast
qed

lemma data_processor_reset:
  "(self :: data_processor)\<lparr>processed_transactions := [], validation_errors := []\<rparr>
   = new_data_processor"
  by (cases self) (simp add: new_data_processor_def)

lemma detect_bank_type_doc1:
  "detect_bank_type self [Page (Some ''HDFC Bank statement'') tables] = self\<lparr>bank_type := Some ''HDFC''\<rparr>"
  by (simp add: detect_bank_type_def upper_def upper_char_def)

text \<open>
  C3 fails for the PDF Parser. \<open>parse_pdf\<close> never resets \<open>self.transactions\<close>: with
  the same one-page document, the first call on a new instance returns one transaction
  and the second call on that instance returns two. \<open>process_transactions\<close> does reset
  its lists: a call after an earlier call returns what a new instance returns.
\<close>

theorem parse_pdf_accumulates_across_calls:
  "fst (parse_pdf new_pdf_parser doc1) = Parse_success [rent] (Some ''HDFC'') 1 None
   \<and> fst (parse_pdf (snd (parse_pdf new_pdf_parser doc1)) doc1)
     = Parse_success [rent, rent] (Some ''HDFC'') 2 None
   \<and> process_transactions (snd (process_transactions new_data_processor [missing_amount]))
        [scenario_a]
     = process_transactions new_data_processor [scenario_a]"
proof -
  have d: "doc1 = Document [Page (Some ''HDFC Bank statement'') [rent_table]]"
    by (simp add: doc1_def rent_table_def rent_row_def)
  have p: "extract_from_page self (Page (Some ''HDFC Bank statement'') [rent_table])
           = self\<lparr>transactions := transactions self @ [rent]\<rparr>" for self
    by (simp add: extract_from_page_def Let_def extract_from_table_def table_rows_rent_Suc)
  have 1: "parse_pdf new_pdf_parser doc1
           = (Parse_success [rent] (Some ''HDFC'') 1 None,
              \<lparr>transactions = [rent], bank_type = Some ''HDFC'', statement_date_range = None\<rparr>)"
    unfolding d parse_pdf_def
    by (simp add: detect_bank_type_doc1 p new_pdf_parser_def)
  have 2: "parse_pdf \<lparr>transactions = [rent], bank_type = Some ''HDFC'', statement_date_range = None\<rparr> doc1
           = (Parse_success [rent, rent] (Some ''HDFC'') 2 None,
              \<lparr>transactions = [rent, rent], bank_type = Some ''HDFC'', statement_date_range = None\<rparr>)"
    unfolding d parse_pdf_def
    by (simp add: detect_bank_type_doc1 p)
  have 3: "process_transactions self batch = process_transactions new_data_processor batch"
    for self batch
    by (simp add: process_transactions_def data_processor_reset)
  show ?thesis by (simp add: 1 2 3 [of "snd (process_transactions new_data_processor [missing_amount])"])
qed

section \<open>Dates\<close>

lemma lt10_cases: "(k::nat) < 10 \<Longrightarrow> k \<in> {0, 1, 2, 3, 4, 5, 6, 7, 8, 9}"
  by simp arith

lemma digit_table:
  "k < 10 \<Longrightarrow> is_digit (''0123456789'' ! k) \<and> digit_val (''0123456789'' ! k) = k"
  by (drule lt10_cases) (elim insertE emptyE; simp add: is_digit_def digit_val_def)

lemma digit_char_digit: "is_digit (digit_char n) \<and> digit_val (digit_char n) = n mod 10"
  unfolding digit_char_def by (rule digit_table) simp

lemma is_digit_cases:
  "is_digit c \<Longrightarrow> c = CHR ''0'' \<or> c = CHR ''1'' \<or> c = CHR ''2'' \<or> c = CHR ''3'' \<or> c = CHR ''4''
     \<or> c = CHR ''5'' \<or> c = CHR ''6'' \<or> c = CHR ''7'' \<or> c = CHR ''8'' \<or> c = CHR ''9''"
  by (simp add: is_digit_def)

lemma digit_lower: "is_digit c \<Longrightarrow> lower_char c = c \<and> \<not> is_sep c \<and> c \<noteq> CHR '' ''"
  by (drule is_digit_cases) (elim disjE; simp add: lower_char_def is_sep_def)

lemma sep_lower: "is_sep c \<Longrightarrow> lower_char c = c \<and> \<not> is_digit c"
  unfolding is_sep_def by (elim disjE; simp add: lower_char_def is_digit_def)

lemma strp_match_Lit_sep:
  "is_sep c \<Longrightarrow> is_sep c' \<Longrightarrow>
   strp_match (Lit c # ds) (c' # r) t = (if c' = c then strp_match ds r t else [])"
  by (simp add: sep_lower)

lemma strp_match_Lit_digit:
  "is_sep c \<Longrightarrow> is_digit x \<Longrightarrow> strp_match (Lit c # ds) (x # r) t = []"
  using digit_lower [of x] sep_lower [of c] by auto

lemma alternatives_d_digits:
  assumes "a < 10" "b < 10"
  shows "alternatives Dir_d (digit_char a # digit_char b # r)
         = (if 1 \<le> 10 * a + b \<and> 10 * a + b \<le> 31 then [(10 * a + b, r)] else [])
           @ (if 1 \<le> a then [(a, digit_char b # r)] else [])"
  using lt10_cases [OF assms(1)] lt10_cases [OF assms(2)]
  by (elim insertE emptyE; simp add: digit_char_def two_chars_def one_char_def in_chars_def is_digit_def
        digit_val_def)

lemma alternatives_m_digits:
  assumes "a < 10" "b < 10"
  shows "alternatives Dir_m (digit_char a # digit_char b # r)
         = (if 1 \<le> 10 * a + b \<and> 10 * a + b \<le> 12 then [(10 * a + b, r)] else [])
           @ (if 1 \<le> a then [(a, digit_char b # r)] else [])"
  using lt10_cases [OF assms(1)] lt10_cases [OF assms(2)]
  by (elim insertE emptyE; simp add: digit_char_def two_chars_def one_char_def in_chars_def is_digit_def
        digit_val_def)

lemma pad2_digits: "pad2 x = [digit_char (x div 10), digit_char (x mod 10)]"
  by (simp add: pad2_def digit_char_def)

lemma pad2_split:
  "x < 100 \<Longrightarrow> \<exists>a b. a < 10 \<and> b < 10 \<and> x = 10 * a + b \<and> pad2 x = [digit_char a, digit_char b]"
  by (rule exI [of _ "x div 10"], rule exI [of _ "x mod 10"]) (simp add: pad2_digits)

lemma strp_match_Lit_same: "strp_match (Lit c # ds) (c # r) t = strp_match ds r t"
  by simp

lemma strp_match_d_sep:
  assumes "x < 100" "is_sep c" "is_sep c'"
  shows "strp_match (Dir_d # Lit c # ds) (pad2 x @ c' # r) t
         = (if 1 \<le> x \<and> x \<le> 31 \<and> c' = c then strp_match ds r (t\<lparr>day := x\<rparr>) else [])"
proof -
  obtain a b where ab: "a < 10" "b < 10" "x = 10 * a + b" "pad2 x = [digit_char a, digit_char b]"
    using pad2_split [OF assms(1)] by blast
  have d: "is_digit (digit_char b)" by (simp add: digit_char_digit)
  show ?thesis
    unfolding ab(4) using alternatives_d_digits [OF ab(1,2), of "c' # r"]
    by (simp add: ab(3) strp_match_Lit_sep [OF assms(2,3)] strp_match_Lit_digit [OF assms(2) d]
        strp_match_Lit_same del: strp_match.simps(2) alternatives.simps)
qed

lemma strp_match_m_sep:
  assumes "x < 100" "is_sep c" "is_sep c'"
  shows "strp_match (Dir_m # Lit c # ds) (pad2 x @ c' # r) t
         = (if 1 \<le> x \<and> x \<le> 12 \<and> c' = c then strp_match ds r (t\<lparr>month := x\<rparr>) else [])"
proof -
  obtain a b where ab: "a < 10" "b < 10" "x = 10 * a + b" "pad2 x = [digit_char a, digit_char b]"
    using pad2_split [OF assms(1)] by blast
  have d: "is_digit (digit_char b)" by (simp add: digit_char_digit)
  show ?thesis
    unfolding ab(4) using alternatives_m_digits [OF ab(1,2), of "c' # r"]
    by (simp add: ab(3) strp_match_Lit_sep [OF assms(2,3)] strp_match_Lit_digit [OF assms(2) d]
        strp_match_Lit_same del: strp_match.simps(2) alternatives.simps)
qed

text \<open>At the end of the input, the first match of a day or month reads both digits.\<close>

lemma strp_match_d_end:
  assumes "x < 100" "1 \<le> x" "x \<le> 31"
  shows "\<exists>l. strp_match [Dir_d] (pad2 x) t = (t\<lparr>day := x\<rparr>, []) # l"
proof -
  obtain a b where ab: "a < 10" "b < 10" "x = 10 * a + b" "pad2 x = [digit_char a, digit_char b]"
    using pad2_split [OF assms(1)] by blast
  show ?thesis
    unfolding ab(4) using alternatives_d_digits [OF ab(1,2), of "[]"] assms(2,3)
    by (simp add: ab(3) del: alternatives.simps)
qed

lemma four_digit_value:
  assumes "y < 10000"
  shows "(((y div 1000) mod 10 * 10 + (y div 100) mod 10) * 10 + (y div 10) mod 10) * 10 + y mod 10
         = (y::nat)"
proof -
  define q1 q2 q3 where "q1 = y div 10" and "q2 = y div 100" and "q3 = y div 1000"
  define d0 d1 d2 where "d0 = y mod 10" and "d1 = q1 mod 10" and "d2 = q2 mod 10"
  have "q1 div 10 = q2" "q2 div 10 = q3" by (simp_all add: q1_def q2_def q3_def div_mult2_eq)
  then have e: "y = q1 * 10 + d0" "q1 = q2 * 10 + d1" "q2 = q3 * 10 + d2"
    using div_mult_mod_eq [of y 10] div_mult_mod_eq [of q1 10] div_mult_mod_eq [of q2 10]
    by (simp_all add: q1_def [symmetric] d0_def d1_def d2_def)
  have "q3 < 10" unfolding q3_def using assms by (simp add: less_mult_imp_div_less)
  then have "q3 mod 10 = q3" by simp
  then have "((q3 mod 10 * 10 + d2) * 10 + d1) * 10 + d0 = y"
    using e by (simp only:)
  then show ?thesis by (simp only: q1_def q2_def q3_def d0_def d1_def d2_def)
qed

lemma pad4_value:
  assumes "y < 10000"
  shows "alternatives Dir_Y (pad4 y @ r) = [(y, r)]"
proof -
  have "digits_val (pad4 y)
        = (((y div 1000) mod 10 * 10 + (y div 100) mod 10) * 10 + (y div 10) mod 10) * 10 + y mod 10"
    by (simp add: pad4_def digits_val_def digit_char_digit mult.commute)
  then have "digits_val (pad4 y) = y" using four_digit_value [OF assms] by (simp only:)
  then show ?thesis
    by (simp add: pad4_def four_digits_def digit_char_digit)
qed

lemma strp_match_Y_sep:
  assumes "y < 10000" "is_sep c" "is_sep c'"
  shows "strp_match (Dir_Y # Lit c # ds) (pad4 y @ c' # r) t
         = (if c' = c then strp_match ds r (t\<lparr>year := y\<rparr>) else [])"
  using pad4_value [OF assms(1), of "c' # r"]
  by (simp add: strp_match_Lit_sep [OF assms(2,3)] strp_match_Lit_same
      del: strp_match.simps(2) alternatives.simps)

lemma strp_match_Y_end:
  assumes "y < 10000"
  shows "strp_match [Dir_Y] (pad4 y) t = [(t\<lparr>year := y\<rparr>, [])]"
  using pad4_value [OF assms(1), of "[]"] by (simp del: alternatives.simps)

lemma strp_match_d_end_eq:
  assumes "x < 100" "1 \<le> x" "x \<le> 31"
  shows "strp_match [Dir_d] (pad2 x) t
         = (t\<lparr>day := x\<rparr>, [])
           # (if 10 \<le> x then [(t\<lparr>day := x div 10\<rparr>, [digit_char (x mod 10)])] else [])"
proof -
  obtain a b where ab: "a < 10" "b < 10" "x = 10 * a + b" "pad2 x = [digit_char a, digit_char b]"
    using pad2_split [OF assms(1)] by blast
  show ?thesis
    unfolding ab(4) using alternatives_d_digits [OF ab(1,2), of "[]"] assms(2,3) ab(1,2)
    by (simp add: ab(3) del: alternatives.simps)
qed

lemma digit_char_mod: "digit_char (n mod 10) = digit_char n"
  by (simp add: digit_char_def)

lemma strp_match_d_three_digits:
  assumes "is_sep c"
  shows "strp_match (Dir_d # Lit c # ds) (digit_char a # digit_char b # digit_char k # r) t = []"
proof -
  have d: "is_digit (digit_char k)" "is_digit (digit_char (b mod 10))"
    by (simp_all add: digit_char_digit)
  have "strp_match (Dir_d # Lit c # ds)
          (digit_char (a mod 10) # digit_char (b mod 10) # digit_char k # r) t = []"
    using alternatives_d_digits [of "a mod 10" "b mod 10" "digit_char k # r"]
    by (simp add: strp_match_Lit_digit [OF assms d(1)] strp_match_Lit_digit [OF assms d(2)]
        del: strp_match.simps(2) alternatives.simps)
  then show ?thesis by (simp only: digit_char_mod)
qed

lemma strp_match_m_three_digits:
  assumes "is_sep c"
  shows "strp_match (Dir_m # Lit c # ds) (digit_char a # digit_char b # digit_char k # r) t = []"
proof -
  have d: "is_digit (digit_char k)" "is_digit (digit_char (b mod 10))"
    by (simp_all add: digit_char_digit)
  have "strp_match (Dir_m # Lit c # ds)
          (digit_char (a mod 10) # digit_char (b mod 10) # digit_char k # r) t = []"
    using alternatives_m_digits [of "a mod 10" "b mod 10" "digit_char k # r"]
    by (simp add: strp_match_Lit_digit [OF assms d(1)] strp_match_Lit_digit [OF assms d(2)]
        del: strp_match.simps(2) alternatives.simps)
  then show ?thesis by (simp only: digit_char_mod)
qed

lemma strp_match_dm_pad4:
  assumes "is_sep c"
  shows "strp_match (Dir_d # Lit c # ds) (pad4 y @ r) t = []"
    and "strp_match (Dir_m # Lit c # ds) (pad4 y @ r) t = []"
  unfolding pad4_def
  using strp_match_d_three_digits [OF assms] strp_match_m_three_digits [OF assms]
  by simp_all

lemma strp_match_Y_pad2:
  assumes "is_sep c'"
  shows "strp_match (Dir_Y # ds) (pad2 x @ c' # r) t = []"
  using sep_lower [OF assms]
  by (simp add: pad2_def four_digits_def split: list.splits)

text \<open>Lower case of the letters of the month names.\<close>

lemma lower_char_letters:
  "lower_char CHR ''J'' = CHR ''j''" "lower_char CHR ''F'' = CHR ''f''"
  "lower_char CHR ''M'' = CHR ''m''" "lower_char CHR ''A'' = CHR ''a''"
  "lower_char CHR ''S'' = CHR ''s''" "lower_char CHR ''O'' = CHR ''o''"
  "lower_char CHR ''N'' = CHR ''n''" "lower_char CHR ''D'' = CHR ''d''"
  "lower_char CHR ''a'' = CHR ''a''" "lower_char CHR ''b'' = CHR ''b''"
  "lower_char CHR ''c'' = CHR ''c''" "lower_char CHR ''e'' = CHR ''e''"
  "lower_char CHR ''g'' = CHR ''g''" "lower_char CHR ''h'' = CHR ''h''"
  "lower_char CHR ''i'' = CHR ''i''" "lower_char CHR ''l'' = CHR ''l''"
  "lower_char CHR ''m'' = CHR ''m''" "lower_char CHR ''n'' = CHR ''n''"
  "lower_char CHR ''o'' = CHR ''o''" "lower_char CHR ''p'' = CHR ''p''"
  "lower_char CHR ''r'' = CHR ''r''" "lower_char CHR ''s'' = CHR ''s''"
  "lower_char CHR ''t'' = CHR ''t''" "lower_char CHR ''u'' = CHR ''u''"
  "lower_char CHR ''v'' = CHR ''v''" "lower_char CHR ''y'' = CHR ''y''"
  by (simp_all add: lower_char_def)

lemma month_cases:
  "1 \<le> m \<Longrightarrow> m \<le> 12 \<Longrightarrow> m \<in> {1, 2, 3, 4, 5, 6, 7, 8, 9, 10, 11, 12::nat}"
  by simp arith

lemma name_alternatives_head:
  "\<forall>n \<in> set ns. n \<noteq> [] \<and> lower_char (hd n) \<noteq> lower_char x \<Longrightarrow>
   name_alternatives ns i (x # r) = []"
proof (induction ns arbitrary: i)
  case Nil
  then show ?case by simp
next
  case (Cons n ns)
  then obtain h n' where n: "n = h # n'" "lower_char h \<noteq> lower_char x" by (cases n) auto
  with Cons show ?case by (simp add: lower_def)
qed

lemma month_name_heads:
  "\<forall>n \<in> set month_abbrs. n \<noteq> [] \<and> \<not> is_digit (lower_char (hd n)) \<and> \<not> is_digit (hd n)
       \<and> hd n \<noteq> CHR '' ''"
  "\<forall>n \<in> set month_names. n \<noteq> [] \<and> \<not> is_digit (lower_char (hd n)) \<and> \<not> is_digit (hd n)
       \<and> hd n \<noteq> CHR '' ''"
  by (simp_all add: month_abbrs_def month_names_def lower_char_letters is_digit_def)

lemma name_alternatives_digit:
  assumes "is_digit x"
  shows "name_alternatives month_abbrs i (x # r) = []"
    and "name_alternatives month_names i (x # r) = []"
proof -
  have "lower_char x = x" using digit_lower [OF assms] by simp
  with assms have "\<not> is_digit y \<Longrightarrow> y \<noteq> lower_char x" for y by auto
  then show "name_alternatives month_abbrs i (x # r) = []"
    "name_alternatives month_names i (x # r) = []"
    using month_name_heads by (intro name_alternatives_head; blast)+
qed

lemma strp_match_name_digit:
  "strp_match (Dir_b # ds) (pad2 x @ r) t = []"
  "strp_match (Dir_B # ds) (pad2 x @ r) t = []"
  "strp_match (Dir_b # ds) (pad4 y @ r) t = []"
  "strp_match (Dir_B # ds) (pad4 y @ r) t = []"
  by (simp_all add: pad2_def pad4_def name_alternatives_digit digit_char_digit)

text \<open>A day, a month number or a year does not start with a letter.\<close>

lemma alternatives_no_digit:
  assumes "\<not> is_digit h" "h \<noteq> CHR '' ''"
  shows "alternatives Dir_d (h # r) = []" "alternatives Dir_m (h # r) = []"
    "alternatives Dir_Y (h # r) = []"
  using assms
  by (auto simp: two_chars_def one_char_def four_digits_def in_chars_def is_digit_def
      split: list.splits)

lemma month_name_nth:
  assumes "1 \<le> m" "m \<le> 12"
  shows "\<exists>h n. month_abbrs ! (m - 1) = h # n \<and> \<not> is_digit h \<and> h \<noteq> CHR '' ''"
    and "\<exists>h n. month_names ! (m - 1) = h # n \<and> \<not> is_digit h \<and> h \<noteq> CHR '' ''"
proof -
  have "m - 1 < length month_abbrs" "m - 1 < length month_names"
    using assms by (simp_all add: month_abbrs_def month_names_def)
  then have "month_abbrs ! (m - 1) \<in> set month_abbrs" "month_names ! (m - 1) \<in> set month_names"
    by (simp_all only: nth_mem)
  then show "\<exists>h n. month_abbrs ! (m - 1) = h # n \<and> \<not> is_digit h \<and> h \<noteq> CHR '' ''"
    "\<exists>h n. month_names ! (m - 1) = h # n \<and> \<not> is_digit h \<and> h \<noteq> CHR '' ''"
    using month_name_heads by (metis list.collapse)+
qed

lemma strp_match_number_name:
  assumes "1 \<le> m" "m \<le> 12" "d = Dir_d \<or> d = Dir_m \<or> d = Dir_Y"
  shows "strp_match (d # ds) (month_abbrs ! (m - 1) @ r) t = []"
    and "strp_match (d # ds) (month_names ! (m - 1) @ r) t = []"
proof -
  obtain h n where a: "month_abbrs ! (m - 1) = h # n" "\<not> is_digit h" "h \<noteq> CHR '' ''"
    using month_name_nth(1) [OF assms(1,2)] by blast
  obtain h' n' where b: "month_names ! (m - 1) = h' # n'" "\<not> is_digit h'" "h' \<noteq> CHR '' ''"
    using month_name_nth(2) [OF assms(1,2)] by blast
  show "strp_match (d # ds) (month_abbrs ! (m - 1) @ r) t = []"
    unfolding a(1) using assms(3) alternatives_no_digit [OF a(2,3), of "n @ r"]
    by (auto simp del: alternatives.simps)
  show "strp_match (d # ds) (month_names ! (m - 1) @ r) t = []"
    unfolding b(1) using assms(3) alternatives_no_digit [OF b(2,3), of "n' @ r"]
    by (auto simp del: alternatives.simps)
qed

lemma name_alternatives_abbr:
  assumes "1 \<le> m" "m \<le> 12"
  shows "name_alternatives month_abbrs 1 (month_abbrs ! (m - 1) @ c' # r) = [(m, c' # r)]"
  using month_cases [OF assms]
  by (elim insertE emptyE; simp add: month_abbrs_def lower_def lower_char_letters)

lemma name_alternatives_name:
  assumes "1 \<le> m" "m \<le> 12"
  shows "name_alternatives month_names 1 (month_names ! (m - 1) @ c' # r) = [(m, c' # r)]"
  using month_cases [OF assms]
  by (elim insertE emptyE; simp add: month_names_def lower_def lower_char_letters)

lemma name_alternatives_abbr_of_name:
  assumes "1 \<le> m" "m \<le> 12"
  shows "name_alternatives month_abbrs 1 (month_names ! (m - 1) @ c' # r)
         = [(m, drop 3 (month_names ! (m - 1)) @ c' # r)]"
  using month_cases [OF assms]
  by (elim insertE emptyE; simp add: month_names_def month_abbrs_def lower_def lower_char_letters)

lemma strp_match_b_abbr:
  assumes "1 \<le> m" "m \<le> 12" "is_sep c" "is_sep c'"
  shows "strp_match (Dir_b # Lit c # ds) (month_abbrs ! (m - 1) @ c' # r) t
         = (if c' = c then strp_match ds r (t\<lparr>month := m\<rparr>) else [])"
  using name_alternatives_abbr [OF assms(1,2), of c' r]
  by (simp add: strp_match_Lit_sep [OF assms(3,4)] strp_match_Lit_same
      del: strp_match.simps(2) name_alternatives.simps)

lemma strp_match_B_name:
  assumes "1 \<le> m" "m \<le> 12" "is_sep c" "is_sep c'"
  shows "strp_match (Dir_B # Lit c # ds) (month_names ! (m - 1) @ c' # r) t
         = (if c' = c then strp_match ds r (t\<lparr>month := m\<rparr>) else [])"
  using name_alternatives_name [OF assms(1,2), of c' r]
  by (simp add: strp_match_Lit_sep [OF assms(3,4)] strp_match_Lit_same
      del: strp_match.simps(2) name_alternatives.simps)

lemma strp_match_Lit_rest_of_name:
  assumes "1 \<le> m" "m \<le> 12" "is_sep c" "is_sep c'"
  shows "strp_match (Lit c # ds) (drop 3 (month_names ! (m - 1)) @ c' # r) t
         = (if m = 5 \<and> c' = c then strp_match ds r t else [])"
  using month_cases [OF assms(1,2)] assms(3,4) unfolding is_sep_def
  by (elim insertE emptyE disjE; simp add: month_names_def lower_char_letters lower_char_def)

lemma strp_match_b_name:
  assumes "1 \<le> m" "m \<le> 12" "is_sep c" "is_sep c'"
  shows "strp_match (Dir_b # Lit c # ds) (month_names ! (m - 1) @ c' # r) t
         = (if m = 5 \<and> c' = c then strp_match ds r (t\<lparr>month := m\<rparr>) else [])"
proof -
  have "strp_match (Dir_b # Lit c # ds) (month_names ! (m - 1) @ c' # r) t
        = strp_match (Lit c # ds) (drop 3 (month_names ! (m - 1)) @ c' # r) (t\<lparr>month := m\<rparr>)"
    using name_alternatives_abbr_of_name [OF assms(1,2), of c' r]
    by (simp del: strp_match.simps(2) name_alternatives.simps)
  then show ?thesis by (simp only: strp_match_Lit_rest_of_name [OF assms])
qed

lemma days_in_month_bounds: "28 \<le> days_in_month y m \<and> days_in_month y m \<le> 31"
  by (simp add: days_in_month_def)

lemma valid_date_bounds:
  assumes "valid_date t"
  shows "1 \<le> year t" "year t \<le> 9999" "year t < 10000"
    "1 \<le> month t" "month t \<le> 12" "month t < 100" "month t \<le> 31"
    "1 \<le> day t" "day t \<le> 31" "day t < 100"
    "day t \<le> days_in_month (year t) (month t)"
    "month t \<le> days_in_month (year t) m"
    "month t = 5 \<longrightarrow> day t \<le> days_in_month (year t) 5"
  using assms days_in_month_bounds [of "year t" "month t"] days_in_month_bounds [of "year t" m]
  by (auto simp: valid_date_def)

lemma is_sep_simps: "is_sep CHR ''-''" "is_sep CHR ''/''"
  by (simp_all add: is_sep_def)

lemma year_digits_pad4: "1000 \<le> n \<Longrightarrow> year_digits n = pad4 n"
  by (simp add: year_digits_def)

lemmas name_rules =
  strp_match_number_name strp_match_b_abbr strp_match_B_name strp_match_b_name

lemmas strp_rules =
  strp_match_d_sep strp_match_m_sep strp_match_Y_sep strp_match_Y_end strp_match_d_end_eq
  strp_match_dm_pad4 strp_match_Y_pad2 strp_match_name_digit
  name_rules [unfolded One_nat_def] is_sep_simps

lemmas fmt_defs = date_formats_def fmt_of_def strftime_def strptime_def iso_format_def
  valid_date_def

lemma try_formats_1:
  assumes "valid_date t" "1000 \<le> year t"
  shows "try_formats date_formats (strftime (fmt_of Dir_d CHR ''-'' Dir_m Dir_Y) t)
         = Some (strftime iso_format t)"
  using valid_date_bounds [OF assms(1)] assms(2)
  by (simp add: fmt_defs strp_rules year_digits_pad4 del: strp_match.simps)

lemma try_formats_2:
  assumes "valid_date t" "1000 \<le> year t"
  shows "try_formats date_formats (strftime (fmt_of Dir_d CHR ''/'' Dir_m Dir_Y) t)
         = Some (strftime iso_format t)"
  using valid_date_bounds [OF assms(1)] assms(2)
  by (simp add: fmt_defs strp_rules year_digits_pad4 del: strp_match.simps)

lemma try_formats_3:
  assumes "valid_date t" "1000 \<le> year t"
  shows "try_formats date_formats (strftime (fmt_of Dir_m CHR ''-'' Dir_d Dir_Y) t)
         = Some (strftime iso_format (if day t \<le> 12 then t\<lparr>month := day t, day := month t\<rparr> else t))"
  using valid_date_bounds [OF assms(1)] assms(2)
  by (simp add: fmt_defs strp_rules year_digits_pad4 del: strp_match.simps)

lemma try_formats_4:
  assumes "valid_date t" "1000 \<le> year t"
  shows "try_formats date_formats (strftime (fmt_of Dir_m CHR ''/'' Dir_d Dir_Y) t)
         = Some (strftime iso_format (if day t \<le> 12 then t\<lparr>month := day t, day := month t\<rparr> else t))"
  using valid_date_bounds [OF assms(1)] assms(2)
  by (simp add: fmt_defs strp_rules year_digits_pad4 del: strp_match.simps)

lemma try_formats_5:
  assumes "valid_date t" "1000 \<le> year t"
  shows "try_formats date_formats (strftime (fmt_of Dir_Y CHR ''-'' Dir_m Dir_d) t)
         = Some (strftime iso_format t)"
  using valid_date_bounds [OF assms(1)] assms(2)
  by (simp add: fmt_defs strp_rules year_digits_pad4 del: strp_match.simps)

lemma try_formats_6:
  assumes "valid_date t" "1000 \<le> year t"
  shows "try_formats date_formats (strftime (fmt_of Dir_Y CHR ''/'' Dir_m Dir_d) t)
         = Some (strftime iso_format t)"
  using valid_date_bounds [OF assms(1)] assms(2)
  by (simp add: fmt_defs strp_rules year_digits_pad4 del: strp_match.simps)

lemma try_formats_7:
  assumes "valid_date t" "1000 \<le> year t"
  shows "try_formats date_formats (strftime (fmt_of Dir_d CHR ''-'' Dir_b Dir_Y) t)
         = Some (strftime iso_format t)"
  using valid_date_bounds [OF assms(1)] assms(2)
  by (simp add: fmt_defs strp_rules year_digits_pad4 del: strp_match.simps)

lemma try_formats_8:
  assumes "valid_date t" "1000 \<le> year t"
  shows "try_formats date_formats (strftime (fmt_of Dir_d CHR ''/'' Dir_b Dir_Y) t)
         = Some (strftime iso_format t)"
  using valid_date_bounds [OF assms(1)] assms(2)
  by (simp add: fmt_defs strp_rules year_digits_pad4 del: strp_match.simps)

lemma try_formats_9:
  assumes "valid_date t" "1000 \<le> year t"
  shows "try_formats date_formats (strftime (fmt_of Dir_b CHR ''-'' Dir_d Dir_Y) t)
         = Some (strftime iso_format t)"
  using valid_date_bounds [OF assms(1)] assms(2)
  by (simp add: fmt_defs strp_rules year_digits_pad4 del: strp_match.simps)

lemma try_formats_10:
  assumes "valid_date t" "1000 \<le> year t"
  shows "try_formats date_formats (strftime (fmt_of Dir_b CHR ''/'' Dir_d Dir_Y) t)
         = Some (strftime iso_format t)"
  using valid_date_bounds [OF assms(1)] assms(2)
  by (simp add: fmt_defs strp_rules year_digits_pad4 del: strp_match.simps)

lemma try_formats_11:
  assumes "valid_date t" "1000 \<le> year t"
  shows "try_formats date_formats (strftime (fmt_of Dir_d CHR ''-'' Dir_B Dir_Y) t)
         = Some (strftime iso_format t)"
  using valid_date_bounds [OF assms(1)] assms(2)
  by (simp add: fmt_defs strp_rules year_digits_pad4 del: strp_match.simps)

lemma try_formats_12:
  assumes "valid_date t" "1000 \<le> year t"
  shows "try_formats date_formats (strftime (fmt_of Dir_d CHR ''/'' Dir_B Dir_Y) t)
         = Some (strftime iso_format t)"
  using valid_date_bounds [OF assms(1)] assms(2)
  by (simp add: fmt_defs strp_rules year_digits_pad4 del: strp_match.simps)

lemma digit_not_space: "is_digit c \<Longrightarrow> \<not> is_space c"
  by (drule is_digit_cases) (elim disjE; simp add: is_space_def)

lemma pad_no_space:
  "\<forall>c \<in> set (pad2 x). \<not> is_space c" "\<forall>c \<in> set (year_digits y). \<not> is_space c"
  by (simp_all add: pad2_def pad4_def year_digits_def digit_not_space digit_char_digit)

lemma month_names_no_space:
  "\<forall>n \<in> set month_abbrs. \<forall>c \<in> set n. \<not> is_space c"
  "\<forall>n \<in> set month_names. \<forall>c \<in> set n. \<not> is_space c"
  by (simp_all add: month_abbrs_def month_names_def is_space_def)

lemma month_name_no_space:
  assumes "1 \<le> m" "m \<le> 12"
  shows "\<forall>c \<in> set (month_abbrs ! (m - 1)). \<not> is_space c"
    and "\<forall>c \<in> set (month_names ! (m - 1)). \<not> is_space c"
proof -
  have "m - 1 < length month_abbrs" "m - 1 < length month_names"
    using assms by (simp_all add: month_abbrs_def month_names_def)
  then have "month_abbrs ! (m - 1) \<in> set month_abbrs" "month_names ! (m - 1) \<in> set month_names"
    by (simp_all only: nth_mem)
  then show "\<forall>c \<in> set (month_abbrs ! (m - 1)). \<not> is_space c"
    "\<forall>c \<in> set (month_names ! (m - 1)). \<not> is_space c"
    using month_names_no_space by blast+
qed

lemma format_directive_no_space:
  assumes "valid_date t"
  shows "\<forall>c \<in> set (format_directive d t). \<not> is_space c \<or> (\<exists>x. d = Lit x \<and> is_space x)"
  using pad_no_space month_name_no_space [of "month t"] valid_date_bounds(4,5) [OF assms]
  by (cases d) simp_all

lemma strip_strftime:
  assumes "fmt \<in> set date_formats" "valid_date t"
  shows "strip (strftime fmt t) = strftime fmt t"
proof (rule strip_nospace)
  have s: "\<not> is_space CHR ''-''" "\<not> is_space CHR ''/''" by (simp_all add: is_space_def)
  have "\<forall>d \<in> set fmt. \<forall>x. d = Lit x \<longrightarrow> \<not> is_space x"
    using assms(1) s by (auto simp: date_formats_def fmt_of_def)
  then show "\<forall>c \<in> set (strftime fmt t). \<not> is_space c"
    using format_directive_no_space [OF assms(2)] by (fastforce simp: strftime_def)
qed

text \<open>A year below 1000 is written with fewer than four digits and is not read back.\<close>

lemma alternatives_suffix: "(v, r) \<in> set (alternatives d s) \<Longrightarrow> \<exists>q. s = q @ r"
proof -
  have n: "(v, r) \<in> set (name_alternatives ns i s) \<Longrightarrow> \<exists>q. s = q @ r" for ns i
  proof (induction ns arbitrary: i)
    case Nil
    then show ?case by simp
  next
    case (Cons n ns)
    then show ?case
      by (auto split: if_splits intro: exI [of _ "take (length n) s"])
  qed
  assume "(v, r) \<in> set (alternatives d s)"
  then show ?thesis
    using n
    by (cases d)
       (auto simp: two_chars_def one_char_def four_digits_def
          split: list.splits if_splits)
qed

lemma ends_in_year_append: "ends_in_year r \<Longrightarrow> ends_in_year (q @ r)"
proof -
  assume r: "ends_in_year r"
  then have l: "4 \<le> length r" by (simp add: ends_in_year_def)
  then have "length (q @ r) - 4 = length q + (length r - 4)" by simp
  then have "drop (length (q @ r) - 4) (q @ r) = drop (length r - 4) r" by simp
  with r l show ?thesis by (simp add: ends_in_year_def)
qed

lemma strp_match_ends_in_year:
  "(t', []) \<in> set (strp_match (ds @ [Dir_Y]) s t) \<Longrightarrow> ends_in_year s"
proof (induction ds arbitrary: s t)
  case Nil
  then show ?case
    by (auto simp: four_digits_def ends_in_year_def split: list.splits if_splits)
next
  case (Cons d ds)
  show ?case
  proof (cases d)
    case (Lit c)
    with Cons.prems obtain x r where "s = x # r" "(t', []) \<in> set (strp_match (ds @ [Dir_Y]) r t)"
      by (auto split: list.splits if_splits)
    then show ?thesis using Cons.IH [of r t] ends_in_year_append [of r "[x]"] by simp
  next
    case Dir_d
    with Cons.prems obtain v r where
      "(v, r) \<in> set (alternatives d s)" "(t', []) \<in> set (strp_match (ds @ [Dir_Y]) r (set_field d v t))"
      by auto
    then show ?thesis using Cons.IH alternatives_suffix ends_in_year_append by blast
  next
    case Dir_m
    with Cons.prems obtain v r where
      "(v, r) \<in> set (alternatives d s)" "(t', []) \<in> set (strp_match (ds @ [Dir_Y]) r (set_field d v t))"
      by auto
    then show ?thesis using Cons.IH alternatives_suffix ends_in_year_append by blast
  next
    case Dir_Y
    with Cons.prems obtain v r where
      "(v, r) \<in> set (alternatives d s)" "(t', []) \<in> set (strp_match (ds @ [Dir_Y]) r (set_field d v t))"
      by auto
    then show ?thesis using Cons.IH alternatives_suffix ends_in_year_append by blast
  next
    case Dir_b
    with Cons.prems obtain v r where
      "(v, r) \<in> set (alternatives d s)" "(t', []) \<in> set (strp_match (ds @ [Dir_Y]) r (set_field d v t))"
      by auto
    then show ?thesis using Cons.IH alternatives_suffix ends_in_year_append by blast
  next
    case Dir_B
    with Cons.prems obtain v r where
      "(v, r) \<in> set (alternatives d s)" "(t', []) \<in> set (strp_match (ds @ [Dir_Y]) r (set_field d v t))"
      by auto
    then show ?thesis using Cons.IH alternatives_suffix ends_in_year_append by blast
  qed
qed

lemma strptime_year_last:
  assumes "\<not> ends_in_year s"
  shows "strptime s (fmt_of a c b Dir_Y) = None"
proof (cases "strp_match (fmt_of a c b Dir_Y) s \<lparr>year = 1900, month = 1, day = 1\<rparr>")
  case Nil
  then show ?thesis by (simp add: strptime_def)
next
  case (Cons m ms)
  obtain t' rest where m: "m = (t', rest)" by (cases m)
  have "rest \<noteq> []"
  proof
    assume "rest = []"
    with Cons m have "(t', []) \<in> set (strp_match ([a, Lit c, b, Lit c] @ [Dir_Y]) s
        \<lparr>year = 1900, month = 1, day = 1\<rparr>)"
      by (simp add: fmt_of_def)
    then have "ends_in_year s" by (rule strp_match_ends_in_year)
    with assms show False by simp
  qed
  with Cons m show ?thesis by (simp add: strptime_def)
qed

lemma strptime_year_first:
  assumes "four_digits s = []"
  shows "strptime s (fmt_of Dir_Y c b e) = None"
  using assms by (simp add: strptime_def fmt_of_def)

lemma try_formats_no_year:
  assumes "\<not> ends_in_year s" "four_digits s = []"
  shows "try_formats date_formats s = None"
  by (simp add: date_formats_def strptime_year_last [OF assms(1)]
      strptime_year_first [OF assms(2)])

lemma not_ends_in_year:
  assumes "length z \<le> 3" "\<not> is_digit x"
  shows "\<not> ends_in_year (u @ x # z)"
proof
  assume e: "ends_in_year (u @ x # z)"
  define n where "n = length (u @ x # z) - 4"
  have "n \<le> length u" using assms(1) by (simp add: n_def)
  then have "drop n (u @ x # z) = drop n u @ x # z" by simp
  moreover from e have "list_all is_digit (drop n (u @ x # z))"
    unfolding ends_in_year_def n_def by (rule conjunct2)
  ultimately have "is_digit x" by simp
  with assms(2) show False by simp
qed

lemma four_digits_short:
  assumes "length z \<le> 3" "\<not> is_digit x"
  shows "four_digits (z @ x # r) = []"
proof (cases z)
  case Nil
  with assms show ?thesis by (simp add: four_digits_def split: list.splits)
next
  case z1: (Cons a z1)
  show ?thesis
  proof (cases z1)
    case Nil
    with z1 assms show ?thesis by (simp add: four_digits_def split: list.splits)
  next
    case z2: (Cons b z2)
    show ?thesis
    proof (cases z2)
      case Nil
      with z1 z2 assms show ?thesis by (simp add: four_digits_def split: list.splits)
    next
      case (Cons c z3)
      with z1 z2 assms show ?thesis by (simp add: four_digits_def split: list.splits)
    qed
  qed
qed

lemma strftime_fmt_of:
  "strftime (fmt_of a c b e) t
   = format_directive a t @ c # format_directive b t @ c # format_directive e t"
  by (simp add: strftime_def fmt_of_def)

lemma short_directive:
  assumes "valid_date t" "year t < 1000" "d \<in> {Dir_d, Dir_m, Dir_Y, Dir_b}"
  shows "length (format_directive d t) \<le> 3"
proof -
  have "month t - 1 < length month_abbrs"
    using valid_date_bounds(4,5) [OF assms(1)] by (simp add: month_abbrs_def)
  then have "month_abbrs ! (month t - 1) \<in> set month_abbrs" by (simp only: nth_mem)
  moreover have "\<forall>n \<in> set month_abbrs. length n = 3" by (simp add: month_abbrs_def)
  ultimately have "length (month_abbrs ! (month t - 1)) = 3" by blast
  then show ?thesis using assms(2,3) by (auto simp: pad2_def year_digits_def)
qed

lemma strftime_no_year:
  assumes "valid_date t" "year t < 1000" "is_sep c"
    "a \<in> {Dir_d, Dir_m, Dir_Y, Dir_b}" "e \<in> {Dir_d, Dir_m, Dir_Y, Dir_b}"
  shows "\<not> ends_in_year (strftime (fmt_of a c b e) t)"
    and "four_digits (strftime (fmt_of a c b e) t) = []"
proof -
  have c: "\<not> is_digit c" using sep_lower [OF assms(3)] by simp
  have "\<not> ends_in_year ((format_directive a t @ c # format_directive b t) @ c # format_directive e t)"
    using short_directive [OF assms(1,2,5)] c by (rule not_ends_in_year)
  then show "\<not> ends_in_year (strftime (fmt_of a c b e) t)" by (simp add: strftime_fmt_of)
  show "four_digits (strftime (fmt_of a c b e) t) = []"
    unfolding strftime_fmt_of using short_directive [OF assms(1,2,4)] c by (rule four_digits_short)
qed

lemma try_formats_short_year:
  assumes "fmt \<in> set date_formats" "valid_date t" "year t < 1000"
  shows "try_formats date_formats (strftime fmt t) = None"
proof -
  have "\<exists>a c b e. fmt = fmt_of a c b e \<and> is_sep c \<and> a \<in> {Dir_d, Dir_m, Dir_Y, Dir_b}
      \<and> e \<in> {Dir_d, Dir_m, Dir_Y, Dir_b}"
    using assms(1) unfolding date_formats_def
    by (auto simp: is_sep_def)
  then obtain a c b e where f: "fmt = fmt_of a c b e" "is_sep c"
    "a \<in> {Dir_d, Dir_m, Dir_Y, Dir_b}" "e \<in> {Dir_d, Dir_m, Dir_Y, Dir_b}"
    by blast
  show ?thesis
    unfolding f(1) using strftime_no_year [OF assms(2,3) f(2,3,4)] by (rule try_formats_no_year)
qed

text \<open>
  C4, as the code has it. For every format of the list and every calendar date with a
  year of four digits (1000 to 9999), formatting the date and normalising the result gives
  the ISO form of the date, with one exception made by the order of the list: a date
  formatted month first with digits (\<open>%m-%d-%Y\<close>, \<open>%m/%d/%Y\<close>) whose day is at most 12
  is read by the day-first format that comes earlier in the list, so the result is the ISO
  form of the date with day and month exchanged. A date with a year below 1000 is
  formatted with a year of fewer than four digits, which no format of the list reads: the
  result is \<open>None\<close>.
\<close>

theorem parse_date_round_trip:
  assumes "fmt \<in> set date_formats" "valid_date t"
  shows "(1000 \<le> year t \<longrightarrow>
            parse_date (strftime fmt t)
            = Some (strftime iso_format
                (if (fmt = fmt_of Dir_m CHR ''-'' Dir_d Dir_Y
                     \<or> fmt = fmt_of Dir_m CHR ''/'' Dir_d Dir_Y)
                    \<and> day t \<le> 12
                 then t\<lparr>month := day t, day := month t\<rparr> else t)))
         \<and> (year t < 1000 \<longrightarrow> parse_date (strftime fmt t) = None)"
proof (intro conjI impI)
  assume y: "1000 \<le> year t"
  have d: "fmt_of a c b e = fmt_of a' c' b' e' \<longleftrightarrow> a = a' \<and> c = c' \<and> b = b' \<and> e = e'"
    for a b e a' b' e' c c'
    by (auto simp: fmt_of_def)
  note r = try_formats_1 [OF assms(2) y] try_formats_2 [OF assms(2) y]
    try_formats_3 [OF assms(2) y] try_formats_4 [OF assms(2) y] try_formats_5 [OF assms(2) y]
    try_formats_6 [OF assms(2) y] try_formats_7 [OF assms(2) y] try_formats_8 [OF assms(2) y]
    try_formats_9 [OF assms(2) y] try_formats_10 [OF assms(2) y] try_formats_11 [OF assms(2) y]
    try_formats_12 [OF assms(2) y]
  have m: "fmt = fmt_of Dir_d CHR ''-'' Dir_m Dir_Y \<or> fmt = fmt_of Dir_d CHR ''/'' Dir_m Dir_Y
      \<or> fmt = fmt_of Dir_m CHR ''-'' Dir_d Dir_Y \<or> fmt = fmt_of Dir_m CHR ''/'' Dir_d Dir_Y
      \<or> fmt = fmt_of Dir_Y CHR ''-'' Dir_m Dir_d \<or> fmt = fmt_of Dir_Y CHR ''/'' Dir_m Dir_d
      \<or> fmt = fmt_of Dir_d CHR ''-'' Dir_b Dir_Y \<or> fmt = fmt_of Dir_d CHR ''/'' Dir_b Dir_Y
      \<or> fmt = fmt_of Dir_b CHR ''-'' Dir_d Dir_Y \<or> fmt = fmt_of Dir_b CHR ''/'' Dir_d Dir_Y
      \<or> fmt = fmt_of Dir_d CHR ''-'' Dir_B Dir_Y \<or> fmt = fmt_of Dir_d CHR ''/'' Dir_B Dir_Y"
    using assms(1) by (simp add: date_formats_def)
  have "try_formats date_formats (strftime fmt t)
         = Some (strftime iso_format
             (if (fmt = fmt_of Dir_m CHR ''-'' Dir_d Dir_Y \<or> fmt = fmt_of Dir_m CHR ''/'' Dir_d Dir_Y)
                 \<and> day t \<le> 12
              then t\<lparr>month := day t, day := month t\<rparr> else t))"
    using m by (elim disjE; simp add: r d)
  then show "parse_date (strftime fmt t)
         = Some (strftime iso_format
             (if (fmt = fmt_of Dir_m CHR ''-'' Dir_d Dir_Y \<or> fmt = fmt_of Dir_m CHR ''/'' Dir_d Dir_Y)
                 \<and> day t \<le> 12
              then t\<lparr>month := day t, day := month t\<rparr> else t))"
    by (simp only: parse_date_def strip_strftime [OF assms])
next
  assume "year t < 1000"
  with assms have "try_formats date_formats (strftime fmt t) = None"
    by (rule try_formats_short_year)
  then show "parse_date (strftime fmt t) = None"
    by (simp only: parse_date_def strip_strftime [OF assms])
qed

theorem parse_date_round_trip_witness:
  "fmt_of Dir_d CHR ''-'' Dir_b Dir_Y \<in> set date_formats
   \<and> valid_date \<lparr>year = 2024, month = 2, day = 29\<rparr>
   \<and> 1000 \<le> year \<lparr>year = 2024, month = 2, day = 29\<rparr>
   \<and> strftime (fmt_of Dir_d CHR ''-'' Dir_b Dir_Y) \<lparr>year = 2024, month = 2, day = 29\<rparr>
       = ''29-Feb-2024''
   \<and> parse_date (strftime (fmt_of Dir_d CHR ''-'' Dir_b Dir_Y) \<lparr>year = 2024, month = 2, day = 29\<rparr>)
       = Some ''2024-02-29''
   \<and> valid_date \<lparr>year = 476, month = 9, day = 4\<rparr>
   \<and> year \<lparr>year = 476, month = 9, day = 4\<rparr> < 1000
   \<and> strftime (fmt_of Dir_d CHR ''-'' Dir_b Dir_Y) \<lparr>year = 476, month = 9, day = 4\<rparr>
       = ''04-Sep-476''
   \<and> parse_date (strftime (fmt_of Dir_d CHR ''-'' Dir_b Dir_Y) \<lparr>year = 476, month = 9, day = 4\<rparr>)
       = None"
proof -
  let ?f = "fmt_of Dir_d CHR ''-'' Dir_b Dir_Y"
  let ?t = "\<lparr>year = 2024, month = 2, day = 29\<rparr>"
  let ?u = "\<lparr>year = 476, month = 9, day = 4\<rparr>"
  have h1: "?f \<in> set date_formats" by (simp add: date_formats_def)
  have h2: "valid_date ?t" by (simp add: valid_date_def days_in_month_def is_leap_def)
  have h3: "valid_date ?u" by (simp add: valid_date_def days_in_month_def)
  have v: "strftime iso_format ?t = ''2024-02-29''" "strftime ?f ?t = ''29-Feb-2024''"
    "strftime ?f ?u = ''04-Sep-476''"
    by code_simp+
  have "parse_date (strftime ?f ?t) = Some (strftime iso_format ?t)"
    using parse_date_round_trip [OF h1 h2] by (simp add: fmt_of_def)
  moreover have "parse_date (strftime ?f ?u) = None"
    using parse_date_round_trip [OF h1 h3] by simp
  ultimately show ?thesis using h1 h2 h3 v by (simp only:) simp
qed

text \<open>
  C4 as stated fails for the month-first formats: 2 January 2024 formatted as
  \<open>%m-%d-%Y\<close> is \<open>01-02-2024\<close>, which the first format of the list reads as
  1 February 2024. It fails for years below 1000 as well: 1 January 999 formatted as
  \<open>%d-%m-%Y\<close> is \<open>01-01-999\<close>, which no format reads.
\<close>

lemma month_first_example:
  "strftime (fmt_of Dir_m CHR ''-'' Dir_d Dir_Y) \<lparr>year = 2024, month = 1, day = 2\<rparr>
     = ''01-02-2024''"
  "strftime iso_format \<lparr>year = 2024, month = 1, day = 2\<rparr> = ''2024-01-02''"
  "parse_date ''01-02-2024'' = Some ''2024-02-01''"
  by code_simp+

lemma short_year_example:
  "strftime (fmt_of Dir_d CHR ''-'' Dir_m Dir_Y) \<lparr>year = 999, month = 1, day = 1\<rparr>
     = ''01-01-999''"
  "strftime iso_format \<lparr>year = 999, month = 1, day = 1\<rparr> = ''999-01-01''"
  "parse_date ''01-01-999'' = None"
  by code_simp+

theorem parse_date_round_trip_counterexample:
  "fmt_of Dir_m CHR ''-'' Dir_d Dir_Y \<in> set date_formats
   \<and> valid_date \<lparr>year = 2024, month = 1, day = 2\<rparr>
   \<and> strftime (fmt_of Dir_m CHR ''-'' Dir_d Dir_Y) \<lparr>year = 2024, month = 1, day = 2\<rparr>
       = ''01-02-2024''
   \<and> strftime iso_format \<lparr>year = 2024, month = 1, day = 2\<rparr> = ''2024-01-02''
   \<and> parse_date ''01-02-2024'' = Some ''2024-02-01''
   \<and> parse_date (strftime (fmt_of Dir_m CHR ''-'' Dir_d Dir_Y) \<lparr>year = 2024, month = 1, day = 2\<rparr>)
       \<noteq> Some (strftime iso_format \<lparr>year = 2024, month = 1, day = 2\<rparr>)
   \<and> fmt_of Dir_d CHR ''-'' Dir_m Dir_Y \<in> set date_formats
   \<and> valid_date \<lparr>year = 999, month = 1, day = 1\<rparr>
   \<and> strftime (fmt_of Dir_d CHR ''-'' Dir_m Dir_Y) \<lparr>year = 999, month = 1, day = 1\<rparr>
       = ''01-01-999''
   \<and> parse_date ''01-01-999'' = None
   \<and> parse_date (strftime (fmt_of Dir_d CHR ''-'' Dir_m Dir_Y) \<lparr>year = 999, month = 1, day = 1\<rparr>)
       \<noteq> Some (strftime iso_format \<lparr>year = 999, month = 1, day = 1\<rparr>)"
proof -
  have h1: "fmt_of Dir_m CHR ''-'' Dir_d Dir_Y \<in> set date_formats"
    "fmt_of Dir_d CHR ''-'' Dir_m Dir_Y \<in> set date_formats"
    by (simp_all add: date_formats_def)
  have h2: "valid_date \<lparr>year = 2024, month = 1, day = 2\<rparr>"
    "valid_date \<lparr>year = 999, month = 1, day = 1\<rparr>"
    by (simp_all add: valid_date_def days_in_month_def)
  show ?thesis unfolding month_first_example short_year_example using h1 h2 by simp
qed

end
